theory Spec2Isabelle
  imports Complex_Main "HOL-Library.Multiset" "HOL-Library.Product_Lexorder"
begin

section \<open>Values\<close>

text \<open>
  The JavaScript values that reach the evaluator's entry points. Strings are lists of
  code units below 256, which covers every card token; numbers that are ranks, suits,
  counts and categories are integers. The equity estimators compute with doubles and
  are modelled over the reals (see the section on the estimators).
\<close>

datatype jsval = JUndefined | JNull | JNaN | JNum int | JStr string

text \<open>A card object \<open>{ rank, suit }\<close> whose two fields are numbers.\<close>

record card =
  rank :: int
  suit :: int

text \<open>
  What \<open>parseCard\<close> returns: \<open>null\<close>, a card, or an object \<open>{ rank, suit }\<close>
  in which a field is not a number but a member inherited from \<open>Object.prototype\<close>
  (see \<open>index_object\<close>).
\<close>

datatype parsed = Null | Card card | NonCard

text \<open>
  What a function yields in place of a result of its type.
  \<^item> \<open>TypeError\<close>: the exception JavaScript throws on reading a property of
    \<open>undefined\<close> or \<open>null\<close>, and on spreading a value that is not iterable.
  \<^item> \<open>ReturnsNaN\<close>: an estimator returns the number \<open>NaN\<close> (no real number).
  \<^item> \<open>NotNumeric\<close>: \<open>evaluate7\<close> has five or more parsed entries, a \<open>NonCard\<close> among
    them, and goes on to \<open>evaluate5\<close> with a rank that is not a number. The code
    returns a hand object there, not \<open>null\<close>; which hand depends on the order in which
    the engine's \<open>sort\<close> leaves elements whose comparator yields \<open>NaN\<close>, which the
    language leaves to the implementation. This development does not follow the run
    any further, and every statement about such inputs says so in its hypotheses.
\<close>

datatype abort = TypeError | ReturnsNaN | NotNumeric

section \<open>Card codec (parseCard, cardToString)\<close>

text \<open>
  \<open>RANKS = ['2','3','4','5','6','7','8','9','T','J','Q','K','A']\<close> and
  \<open>SUITS = ['s','h','d','c']\<close>: one-character strings.
\<close>

definition RANKS :: "string list" where
  "RANKS = map (\<lambda>c. [c]) ''23456789TJQKA''"

definition SUITS :: "string list" where
  "SUITS = [''s'', ''h'', ''d'', ''c'']"

text \<open>
  \<open>RANK_IDX\<close> and \<open>SUIT_IDX\<close> are ordinary objects (\<open>Object.fromEntries(...)\<close> in the
  Node module, \<open>{}\<close> filled by \<open>forEach\<close> in the browser script), so reading a key
  that is not an own property goes on to \<open>Object.prototype\<close>: the read is \<open>undefined\<close>
  only when the key names no member of \<open>Object.prototype\<close> either.
\<close>

definition Object_prototype :: "string list" where
  "Object_prototype =
     [''constructor'', ''hasOwnProperty'', ''isPrototypeOf'', ''propertyIsEnumerable'',
      ''toLocaleString'', ''toString'', ''valueOf'', ''__proto__'',
      ''__defineGetter__'', ''__defineSetter__'', ''__lookupGetter__'', ''__lookupSetter__'']"

datatype lookup = Undefined | Own nat | Inherited

definition index_object :: "string list \<Rightarrow> string \<Rightarrow> lookup" where
  "index_object keys k =
     (case map_of (zip keys [0..<length keys]) k of
        Some i \<Rightarrow> Own i
      | None \<Rightarrow> if k \<in> set Object_prototype then Inherited else Undefined)"

definition RANK_IDX :: "string \<Rightarrow> lookup" where
  "RANK_IDX = index_object RANKS"

definition SUIT_IDX :: "string \<Rightarrow> lookup" where
  "SUIT_IDX = index_object SUITS"

text \<open>
  \<open>toLowerCase\<close> on one code unit. Only the letters A to Z are mapped: no other code
  unit has one of \<open>s h d c\<close> as its lower case, and the result is used for nothing but
  the read of \<open>SUIT_IDX\<close>.
\<close>

definition toLowerCase_char :: "char \<Rightarrow> char" where
  "toLowerCase_char c =
     (case map_of (zip ''ABCDEFGHIJKLMNOPQRSTUVWXYZ'' ''abcdefghijklmnopqrstuvwxyz'') c of
        Some l \<Rightarrow> l
      | None \<Rightarrow> c)"

text \<open>
  \<^verbatim>\<open>
  function parseCard(str) {
    if (!str || typeof str !== 'string' || str.length < 2) return null;
    const rank = str.length === 3 ? str.slice(0, 2) : str.slice(0, -1);
    const suit = str.slice(-1).toLowerCase();
    const r = RANK_IDX[rank];
    const s = SUIT_IDX[suit];
    if (r === undefined || s === undefined) return null;
    return { rank: r, suit: s };
  }
  \<close>
\<close>

fun parseCard :: "jsval \<Rightarrow> parsed" where
  "parseCard (JStr str) =
     (if length str < 2 then Null
      else
        let rank_str = (if length str = 3 then take 2 str else butlast str);
            suit_str = map toLowerCase_char [last str]
        in (case (RANK_IDX rank_str, SUIT_IDX suit_str) of
              (Undefined, _) \<Rightarrow> Null
            | (_, Undefined) \<Rightarrow> Null
            | (Own r, Own s) \<Rightarrow> Card \<lparr>rank = int r, suit = int s\<rparr>
            | (_, _) \<Rightarrow> NonCard))"
| "parseCard _ = Null"

text \<open>
  \<open>RANKS[card.rank] + SUITS[card.suit]\<close>: an index out of range reads \<open>undefined\<close>,
  which \<open>+\<close> turns into the text \<open>undefined\<close> beside a string, and into \<open>NaN\<close>
  when both operands are \<open>undefined\<close>.
\<close>

definition array_get :: "string list \<Rightarrow> int \<Rightarrow> string option" where
  "array_get xs i = (if 0 \<le> i \<and> i < int (length xs) then Some (xs ! nat i) else None)"

definition cardToString :: "card \<Rightarrow> jsval" where
  "cardToString c =
     (case (array_get RANKS (rank c), array_get SUITS (suit c)) of
        (None, None) \<Rightarrow> JNaN
      | (Some r, None) \<Rightarrow> JStr (r @ ''undefined'')
      | (None, Some s) \<Rightarrow> JStr (''undefined'' @ s)
      | (Some r, Some s) \<Rightarrow> JStr (r @ s))"

section \<open>Five-card classifier (evaluate5)\<close>

record hand =
  hand_rank :: int
  tiebreaker :: "int list"
  name :: string

definition HIGH_CARD :: int where "HIGH_CARD = 0"
definition ONE_PAIR :: int where "ONE_PAIR = 1"
definition TWO_PAIR :: int where "TWO_PAIR = 2"
definition THREE_OF_A_KIND :: int where "THREE_OF_A_KIND = 3"
definition STRAIGHT :: int where "STRAIGHT = 4"
definition FLUSH :: int where "FLUSH = 5"
definition FULL_HOUSE :: int where "FULL_HOUSE = 6"
definition FOUR_OF_A_KIND :: int where "FOUR_OF_A_KIND = 7"
definition STRAIGHT_FLUSH :: int where "STRAIGHT_FLUSH = 8"

text \<open>
  The straight detection of \<open>evaluate5\<close>, on the ranks in descending order; it yields
  the pair \<open>(isStraight, straightHigh)\<close>. The wheel test comes second and overwrites.
  \<^verbatim>\<open>
  let isStraight = false;
  let straightHigh = -1;
  if (uniqueRanks === 5) {
    if (ranks[0] - ranks[4] === 4) { isStraight = true; straightHigh = ranks[0]; }
    if (ranks[0] === 12 && ranks[1] === 3 && ranks[2] === 2 && ranks[3] === 1 && ranks[4] === 0) {
      isStraight = true; straightHigh = 3;
    }
  }
  \<close>
  Five distinct ranks mean at least five entries, so every index read is in range.
\<close>

definition straight_of :: "int list \<Rightarrow> bool \<times> int" where
  "straight_of ranks =
     (if length (remdups ranks) = 5 then
        (let consecutive = (if ranks ! 0 - ranks ! 4 = 4 then (True, ranks ! 0) else (False, - 1))
         in if ranks ! 0 = 12 \<and> ranks ! 1 = 3 \<and> ranks ! 2 = 2 \<and> ranks ! 3 = 1 \<and> ranks ! 4 = 0
            then (True, 3)
            else consecutive)
      else (False, - 1))"

text \<open>
  The frequency object \<open>freq\<close>, as the list of its entries, and the groups: the
  entries sorted by count descending, then rank descending. The comparator orders any
  two entries with different ranks, so the order in which the entries of \<open>freq\<close>
  are enumerated has no influence on the sorted result.
  \<^verbatim>\<open>
  const freq = {};
  for (const r of ranks) freq[r] = (freq[r] || 0) + 1;
  const groups = Object.entries(freq)
    .sort((a, b) => b[1] - a[1] || parseInt(b[0]) - parseInt(a[0]))
    .map(([r, c]) => ({ rank: parseInt(r), count: c }));
  \<close>
\<close>

fun freq_incr :: "int \<Rightarrow> (int \<times> nat) list \<Rightarrow> (int \<times> nat) list" where
  "freq_incr r [] = [(r, 1)]"
| "freq_incr r ((k, c) # freq) = (if k = r then (k, c + 1) # freq else (k, c) # freq_incr r freq)"

definition rank_freq :: "int list \<Rightarrow> (int \<times> nat) list" where
  "rank_freq ranks = fold freq_incr ranks []"

definition rank_groups :: "int list \<Rightarrow> (int \<times> nat) list" where
  "rank_groups ranks = sort_key (\<lambda>(r, c). (- int c, - r)) (rank_freq ranks)"

definition group_count :: "(int \<times> nat) list \<Rightarrow> nat \<Rightarrow> nat" where
  "group_count groups i = snd (groups ! i)"

text \<open>
  \<open>evaluate5\<close> sorts the cards by rank descending (the sort is stable), and tests the
  categories from the top. \<open>groups[0].count\<close> throws when there is no group (no card
  at all), and \<open>groups[1].count\<close> is read only after \<open>groups[0].count\<close> was 3 or 2;
  it throws when there is no second group.
\<close>

definition evaluate5 :: "card list \<Rightarrow> abort + hand" where
  "evaluate5 cards =
     (let sorted = sort_key (\<lambda>c. - rank c) cards;
          ranks = map rank sorted;
          suits = map suit sorted;
          isFlush = (length (remdups suits) = 1);
          isStraight = fst (straight_of ranks);
          straightHigh = snd (straight_of ranks);
          groups = rank_groups ranks
      in
        if isFlush \<and> isStraight then
          Inr \<lparr>hand_rank = STRAIGHT_FLUSH, tiebreaker = [straightHigh],
               name = (if straightHigh = 12 then ''Royal Flush'' else ''Straight Flush'')\<rparr>
        else if groups = [] then Inl TypeError
        else if group_count groups 0 = 4 then
          Inr \<lparr>hand_rank = FOUR_OF_A_KIND, tiebreaker = map fst groups, name = ''Four of a Kind''\<rparr>
        else if group_count groups 0 = 3 \<and> length groups < 2 then Inl TypeError
        else if group_count groups 0 = 3 \<and> group_count groups 1 = 2 then
          Inr \<lparr>hand_rank = FULL_HOUSE, tiebreaker = map fst groups, name = ''Full House''\<rparr>
        else if isFlush then
          Inr \<lparr>hand_rank = FLUSH, tiebreaker = ranks, name = ''Flush''\<rparr>
        else if isStraight then
          Inr \<lparr>hand_rank = STRAIGHT, tiebreaker = [straightHigh], name = ''Straight''\<rparr>
        else if group_count groups 0 = 3 then
          Inr \<lparr>hand_rank = THREE_OF_A_KIND, tiebreaker = map fst groups, name = ''Three of a Kind''\<rparr>
        else if group_count groups 0 = 2 \<and> length groups < 2 then Inl TypeError
        else if group_count groups 0 = 2 \<and> group_count groups 1 = 2 then
          Inr \<lparr>hand_rank = TWO_PAIR, tiebreaker = map fst groups, name = ''Two Pair''\<rparr>
        else if group_count groups 0 = 2 then
          Inr \<lparr>hand_rank = ONE_PAIR, tiebreaker = map fst groups, name = ''One Pair''\<rparr>
        else
          Inr \<lparr>hand_rank = HIGH_CARD, tiebreaker = ranks, name = ''High Card''\<rparr>)"

section \<open>Comparator (compareHands)\<close>

text \<open>
  \<^verbatim>\<open>
  function compareHands(a, b) {
    if (a.rank !== b.rank) return a.rank - b.rank;
    const len = Math.max(a.tiebreaker.length, b.tiebreaker.length);
    for (let i = 0; i < len; i++) {
      const av = a.tiebreaker[i] ?? -1;
      const bv = b.tiebreaker[i] ?? -1;
      if (av !== bv) return av - bv;
    }
    return 0;
  }
  \<close>
\<close>

definition entry_or_minus1 :: "int list \<Rightarrow> nat \<Rightarrow> int" where
  "entry_or_minus1 xs i = (if i < length xs then xs ! i else - 1)"

function compare_loop :: "int list \<Rightarrow> int list \<Rightarrow> nat \<Rightarrow> nat \<Rightarrow> int" where
  "compare_loop a b len i =
     (if i < len then
        (if entry_or_minus1 a i \<noteq> entry_or_minus1 b i
         then entry_or_minus1 a i - entry_or_minus1 b i
         else compare_loop a b len (i + 1))
      else 0)"
  by pat_completeness auto
termination
  by (relation "measure (\<lambda>(a, b, len, i). len - i)") auto

definition compareHands :: "hand \<Rightarrow> hand \<Rightarrow> int" where
  "compareHands a b =
     (if hand_rank a \<noteq> hand_rank b then hand_rank a - hand_rank b
      else compare_loop (tiebreaker a) (tiebreaker b)
             (max (length (tiebreaker a)) (length (tiebreaker b))) 0)"


section \<open>Best-hand selector (evaluate7)\<close>

text \<open>
  The five nested index loops, as the list of index tuples in the order the loops
  visit them.
  \<^verbatim>\<open>
  for (let a = 0; a < n - 4; a++)
    for (let b = a + 1; b < n - 3; b++)
      for (let c = b + 1; c < n - 2; c++)
        for (let d = c + 1; d < n - 1; d++)
          for (let e = d + 1; e < n; e++) {
            const hand = evaluate5([cards[a], cards[b], cards[c], cards[d], cards[e]]);
            if (!best || compareHands(hand, best) > 0) best = hand;
          }
  \<close>
\<close>

definition combinations5 :: "nat \<Rightarrow> (nat \<times> nat \<times> nat \<times> nat \<times> nat) list" where
  "combinations5 n =
     [(a, b, c, d, e).
        a \<leftarrow> [0..<n - 4], b \<leftarrow> [a + 1..<n - 3], c \<leftarrow> [b + 1..<n - 2],
        d \<leftarrow> [c + 1..<n - 1], e \<leftarrow> [d + 1..<n]]"

definition pick5 :: "card list \<Rightarrow> nat \<times> nat \<times> nat \<times> nat \<times> nat \<Rightarrow> card list" where
  "pick5 cards t = (case t of (a, b, c, d, e) \<Rightarrow> [cards ! a, cards ! b, cards ! c, cards ! d, cards ! e])"

definition keep_best :: "hand option \<Rightarrow> hand \<Rightarrow> hand option" where
  "keep_best best hand =
     (case best of
        None \<Rightarrow> Some hand
      | Some b \<Rightarrow> if compareHands hand b > 0 then Some hand else Some b)"

fun best_loop :: "card list list \<Rightarrow> hand option \<Rightarrow> abort + hand option" where
  "best_loop [] best = Inr best"
| "best_loop (five # rest) best =
     (case evaluate5 five of
        Inl err \<Rightarrow> Inl err
      | Inr hand \<Rightarrow> best_loop rest (keep_best best hand))"

text \<open>
  \<^verbatim>\<open>
  const cards = cardStrings.map(parseCard).filter(Boolean);
  if (cards.length < 5) return null;
  \<close>
  \<open>filter(Boolean)\<close> drops \<open>null\<close> only: every object is truthy, a \<open>NonCard\<close> too.
\<close>

definition parsed_cards :: "jsval list \<Rightarrow> parsed list" where
  "parsed_cards cardStrings = filter (\<lambda>p. p \<noteq> Null) (map parseCard cardStrings)"

definition numeric_cards :: "parsed list \<Rightarrow> card list" where
  "numeric_cards ps = List.map_filter (\<lambda>p. case p of Card c \<Rightarrow> Some c | _ \<Rightarrow> None) ps"

definition evaluate7 :: "jsval list \<Rightarrow> abort + hand option" where
  "evaluate7 cardStrings =
     (let cards = parsed_cards cardStrings;
          n = length cards
      in if n < 5 then Inr None
         else if NonCard \<in> set cards then Inl NotNumeric
         else best_loop (map (pick5 (numeric_cards cards)) (combinations5 n)) None)"

section \<open>Equity estimators (preFlopStrength, winProbability)\<close>

text \<open>
  The estimators compute with doubles. They are modelled over the reals: the decimal
  literals stand for the rationals they denote, and \<open>Math.pow(0.88, m)\<close> with a
  natural exponent \<open>m\<close> is the power. The comparisons, the branches taken and the
  order of the operations are those of the source.
  \<^verbatim>\<open>
  function preFlopStrength(holeCards) {
    if (!holeCards || holeCards.length < 2) return 0.5;
    const [c1, c2] = holeCards.map(parseCard).filter(Boolean);
    if (!c1 || !c2) return 0.5;
    const hi = Math.max(c1.rank, c2.rank);
    const lo = Math.min(c1.rank, c2.rank);
    const suited = c1.suit === c2.suit;
    const isPair = hi === lo;
    const gap = hi - lo;
    let score;
    if (isPair) {
      score = hi * 2;
      if (hi === 12) score = 20; else if (hi === 11) score = 16;
      else if (hi === 10) score = 14; else if (hi === 9) score = 12;
      score = Math.max(5, score);
    } else {
      score = hi * 0.5;
      score += suited ? 2 : 0;
      score += gap <= 1 ? 1 : 0;
      score -= Math.max(0, gap - 3);
    }
    return Math.max(0.05, Math.min(0.98, score / 20));
  }
  \<close>
\<close>

definition hole_score :: "card \<Rightarrow> card \<Rightarrow> real" where
  "hole_score c1 c2 =
     (let hi = max (rank c1) (rank c2);
          lo = min (rank c1) (rank c2);
          suited = (suit c1 = suit c2);
          isPair = (hi = lo);
          gap = hi - lo
      in if isPair then
           of_int (max 5 (if hi = 12 then 20 else if hi = 11 then 16
                          else if hi = 10 then 14 else if hi = 9 then 12 else hi * 2))
         else
           of_int hi * 0.5 + (if suited then 2 else 0) + (if gap \<le> 1 then 1 else 0)
             - of_int (max 0 (gap - 3)))"

text \<open>
  When \<open>c1\<close> or \<open>c2\<close> is a \<open>NonCard\<close>, its rank converts to \<open>NaN\<close>: then \<open>hi\<close>, \<open>lo\<close>
  and \<open>gap\<close> are \<open>NaN\<close>, \<open>isPair\<close> is false (\<open>NaN === NaN\<close> is false), the score is
  \<open>NaN\<close>, and \<open>Math.max(0.05, Math.min(0.98, NaN))\<close> is \<open>NaN\<close>.
\<close>

definition preFlopStrength :: "jsval list \<Rightarrow> abort + real" where
  "preFlopStrength hole =
     (if length hole < 2 then Inr 0.5
      else
        (case parsed_cards hole of
           c1 # c2 # _ \<Rightarrow>
             (case (c1, c2) of
                (Card a, Card b) \<Rightarrow> Inr (max 0.05 (min 0.98 (hole_score a b / 20)))
              | _ \<Rightarrow> Inl ReturnsNaN)
         | _ \<Rightarrow> Inr 0.5))"

text \<open>
  The argument of \<open>winProbability\<close>. The property \<open>numOpponents\<close> is missing (or
  \<open>undefined\<close>), \<open>null\<close>, or an integer. The properties \<open>holeCards\<close> and \<open>boardCards\<close>
  are missing (or \<open>undefined\<close>), \<open>null\<close>, one of the falsy primitives \<open>0\<close>, \<open>NaN\<close> and
  \<open>false\<close>, or an array of tokens. Other values (the empty string, truthy values that
  are no arrays) are not covered.
\<close>

datatype 'a field = Absent | IsNull | Given 'a

datatype cards_field = NoCards | NullCards | FalsyCards | Cards "jsval list"

record opts =
  holeCards :: cards_field
  boardCards :: cards_field
  numOpponents :: "int field"

definition TABLE :: "real list" where
  "TABLE = [0.10, 0.38, 0.55, 0.68, 0.72, 0.77, 0.86, 0.93, 0.97]"

text \<open>\<open>TABLE[result.rank] ?? 0.5\<close>\<close>

definition table_or_half :: "int \<Rightarrow> real" where
  "table_or_half i = (if 0 \<le> i \<and> i < int (length TABLE) then TABLE ! nat i else 0.5)"

definition discount :: "real \<Rightarrow> int \<Rightarrow> real" where
  "discount equity n = max 0.01 (equity * 0.88 ^ nat (max 0 (n - 1)))"

text \<open>
  \<^verbatim>\<open>
  function winProbability({ holeCards = [], boardCards = [], numOpponents = 1 }) {
    if (holeCards.length < 2) return 0.5;
    let equity;
    if (boardCards.length === 0) {
      equity = preFlopStrength(holeCards);
    } else {
      const result = evaluate7([...holeCards, ...boardCards]);
      const TABLE = [0.10, 0.38, 0.55, 0.68, 0.72, 0.77, 0.86, 0.93, 0.97];
      equity = result ? (TABLE[result.rank] ?? 0.5) : 0.5;
    }
    return Math.max(0.01, equity * Math.pow(0.88, Math.max(0, numOpponents - 1)));
  }
  \<close>
  A destructuring default replaces a missing or \<open>undefined\<close> property only. So \<open>null\<close>
  stays \<open>null\<close>: reading its \<open>length\<close> throws, and \<open>null - 1\<close> is \<open>-1\<close>. And \<open>0\<close>,
  \<open>NaN\<close> and \<open>false\<close> stay: their \<open>length\<close> is \<open>undefined\<close>, so neither
  \<open>undefined < 2\<close> nor \<open>undefined === 0\<close> holds; \<open>preFlopStrength\<close> returns 0.5 for
  them at \<open>!holeCards\<close>; and spreading them (\<open>[...holeCards, ...boardCards]\<close>) throws.
  When the equity is \<open>NaN\<close>, so are the product and \<open>Math.max(0.01, NaN)\<close>.
\<close>

definition equity_result :: "abort + real \<Rightarrow> int \<Rightarrow> abort + real" where
  "equity_result equity n =
     (case equity of Inl err \<Rightarrow> Inl err | Inr e \<Rightarrow> Inr (discount e n))"

definition board_equity :: "abort + hand option \<Rightarrow> abort + real" where
  "board_equity result =
     (case result of
        Inl err \<Rightarrow> Inl err
      | Inr None \<Rightarrow> Inr 0.5
      | Inr (Some r) \<Rightarrow> Inr (table_or_half (hand_rank r)))"

definition winProbability :: "opts \<Rightarrow> abort + real" where
  "winProbability opts =
     (let n = (case numOpponents opts of Absent \<Rightarrow> 1 | IsNull \<Rightarrow> 0 | Given k \<Rightarrow> k)
      in case holeCards opts of
           NullCards \<Rightarrow> Inl TypeError
         | FalsyCards \<Rightarrow>
             (case boardCards opts of
                NullCards \<Rightarrow> Inl TypeError
              | FalsyCards \<Rightarrow> Inl TypeError
              | NoCards \<Rightarrow> equity_result (Inr 0.5) n
              | Cards board \<Rightarrow>
                  if length board = 0 then equity_result (Inr 0.5) n else Inl TypeError)
         | hc \<Rightarrow>
             let hole = (case hc of Cards xs \<Rightarrow> xs | _ \<Rightarrow> [])
             in if length hole < 2 then Inr 0.5
                else
                  (case boardCards opts of
                     NullCards \<Rightarrow> Inl TypeError
                   | FalsyCards \<Rightarrow> Inl TypeError
                   | bc \<Rightarrow>
                       let board = (case bc of Cards xs \<Rightarrow> xs | _ \<Rightarrow> [])
                       in if length board = 0 then equity_result (preFlopStrength hole) n
                          else equity_result (board_equity (evaluate7 (hole @ board))) n))"

section \<open>The browser script (inject/hand-evaluator.js)\<close>

text \<open>
  The script installs functions of the same names on \<open>window.__PokerHandEvaluator\<close>.
  Each is translated from the script's own text; the suffix \<open>_inject\<close> tells it from
  the function of the Node module. The script builds its tables with
  \<open>RANKS.forEach(function (r, i) { RANK_IDX[r] = i; })\<close> on \<open>{}\<close>.
\<close>

definition RANKS_inject :: "string list" where
  "RANKS_inject = map (\<lambda>c. [c]) ''23456789TJQKA''"

definition SUITS_inject :: "string list" where
  "SUITS_inject = [''s'', ''h'', ''d'', ''c'']"

definition RANK_IDX_inject :: "string \<Rightarrow> lookup" where
  "RANK_IDX_inject = index_object RANKS_inject"

definition SUIT_IDX_inject :: "string \<Rightarrow> lookup" where
  "SUIT_IDX_inject = index_object SUITS_inject"

text \<open>The two \<open>HAND_RANK\<close> objects, as the lists of their entries.\<close>

definition HAND_RANK :: "(string \<times> int) list" where
  "HAND_RANK =
     [(''HIGH_CARD'', HIGH_CARD), (''ONE_PAIR'', ONE_PAIR), (''TWO_PAIR'', TWO_PAIR),
      (''THREE_OF_A_KIND'', THREE_OF_A_KIND), (''STRAIGHT'', STRAIGHT), (''FLUSH'', FLUSH),
      (''FULL_HOUSE'', FULL_HOUSE), (''FOUR_OF_A_KIND'', FOUR_OF_A_KIND),
      (''STRAIGHT_FLUSH'', STRAIGHT_FLUSH)]"

definition HAND_RANK_inject :: "(string \<times> int) list" where
  "HAND_RANK_inject =
     [(''HIGH_CARD'', 0), (''ONE_PAIR'', 1), (''TWO_PAIR'', 2), (''THREE_OF_A_KIND'', 3),
      (''STRAIGHT'', 4), (''FLUSH'', 5), (''FULL_HOUSE'', 6), (''FOUR_OF_A_KIND'', 7),
      (''STRAIGHT_FLUSH'', 8)]"

definition hand_rank_inject :: "string \<Rightarrow> int" where
  "hand_rank_inject k = (case map_of HAND_RANK_inject k of Some v \<Rightarrow> v | None \<Rightarrow> - 1)"

fun parseCard_inject :: "jsval \<Rightarrow> parsed" where
  "parseCard_inject (JStr str) =
     (if length str < 2 then Null
      else
        let rank_str = (if length str = 3 then take 2 str else butlast str);
            suit_str = map toLowerCase_char [last str]
        in (case (RANK_IDX_inject rank_str, SUIT_IDX_inject suit_str) of
              (Undefined, _) \<Rightarrow> Null
            | (_, Undefined) \<Rightarrow> Null
            | (Own r, Own s) \<Rightarrow> Card \<lparr>rank = int r, suit = int s\<rparr>
            | (_, _) \<Rightarrow> NonCard))"
| "parseCard_inject _ = Null"

definition cardToString_inject :: "card \<Rightarrow> jsval" where
  "cardToString_inject c =
     (case (array_get RANKS_inject (rank c), array_get SUITS_inject (suit c)) of
        (None, None) \<Rightarrow> JNaN
      | (Some r, None) \<Rightarrow> JStr (r @ ''undefined'')
      | (None, Some s) \<Rightarrow> JStr (''undefined'' @ s)
      | (Some r, Some s) \<Rightarrow> JStr (r @ s))"

text \<open>
  The script reads the keys of \<open>freq\<close>, builds the groups from them and sorts the groups:
  \<^verbatim>\<open>
  var freq = {};
  for (var i = 0; i < ranks.length; i++) freq[ranks[i]] = (freq[ranks[i]] || 0) + 1;
  var groups = Object.keys(freq)
    .map(function (r) { return { rank: parseInt(r), count: freq[r] }; })
    .sort(function (a, b) { return b.count - a.count || b.rank - a.rank; });
  \<close>
\<close>

definition freq_get :: "(int \<times> nat) list \<Rightarrow> int \<Rightarrow> nat" where
  "freq_get freq r = (case map_of freq r of Some c \<Rightarrow> c | None \<Rightarrow> 0)"

definition rank_groups_inject :: "int list \<Rightarrow> (int \<times> nat) list" where
  "rank_groups_inject ranks =
     (let freq = rank_freq ranks
      in sort_key (\<lambda>g. (- int (snd g), - fst g)) (map (\<lambda>r. (r, freq_get freq r)) (map fst freq)))"

definition evaluate5_inject :: "card list \<Rightarrow> abort + hand" where
  "evaluate5_inject cards =
     (let sorted = sort_key (\<lambda>c. - rank c) cards;
          ranks = map rank sorted;
          suits = map suit sorted;
          isFlush = (length (remdups suits) = 1);
          isStraight = fst (straight_of ranks);
          straightHigh = snd (straight_of ranks);
          groups = rank_groups_inject ranks
      in
        if isFlush \<and> isStraight then
          Inr \<lparr>hand_rank = hand_rank_inject ''STRAIGHT_FLUSH'', tiebreaker = [straightHigh],
               name = (if straightHigh = 12 then ''Royal Flush'' else ''Straight Flush'')\<rparr>
        else if groups = [] then Inl TypeError
        else if group_count groups 0 = 4 then
          Inr \<lparr>hand_rank = hand_rank_inject ''FOUR_OF_A_KIND'', tiebreaker = map fst groups,
               name = ''Four of a Kind''\<rparr>
        else if group_count groups 0 = 3 \<and> length groups < 2 then Inl TypeError
        else if group_count groups 0 = 3 \<and> group_count groups 1 = 2 then
          Inr \<lparr>hand_rank = hand_rank_inject ''FULL_HOUSE'', tiebreaker = map fst groups,
               name = ''Full House''\<rparr>
        else if isFlush then
          Inr \<lparr>hand_rank = hand_rank_inject ''FLUSH'', tiebreaker = ranks, name = ''Flush''\<rparr>
        else if isStraight then
          Inr \<lparr>hand_rank = hand_rank_inject ''STRAIGHT'', tiebreaker = [straightHigh],
               name = ''Straight''\<rparr>
        else if group_count groups 0 = 3 then
          Inr \<lparr>hand_rank = hand_rank_inject ''THREE_OF_A_KIND'', tiebreaker = map fst groups,
               name = ''Three of a Kind''\<rparr>
        else if group_count groups 0 = 2 \<and> length groups < 2 then Inl TypeError
        else if group_count groups 0 = 2 \<and> group_count groups 1 = 2 then
          Inr \<lparr>hand_rank = hand_rank_inject ''TWO_PAIR'', tiebreaker = map fst groups,
               name = ''Two Pair''\<rparr>
        else if group_count groups 0 = 2 then
          Inr \<lparr>hand_rank = hand_rank_inject ''ONE_PAIR'', tiebreaker = map fst groups,
               name = ''One Pair''\<rparr>
        else
          Inr \<lparr>hand_rank = hand_rank_inject ''HIGH_CARD'', tiebreaker = ranks, name = ''High Card''\<rparr>)"

text \<open>
  \<open>a.tiebreaker[i] != null ? a.tiebreaker[i] : -1\<close> in place of \<open>??\<close>; the loop is the
  same.
\<close>

definition compareHands_inject :: "hand \<Rightarrow> hand \<Rightarrow> int" where
  "compareHands_inject a b =
     (if hand_rank a \<noteq> hand_rank b then hand_rank a - hand_rank b
      else compare_loop (tiebreaker a) (tiebreaker b)
             (max (length (tiebreaker a)) (length (tiebreaker b))) 0)"

definition keep_best_inject :: "hand option \<Rightarrow> hand \<Rightarrow> hand option" where
  "keep_best_inject best hand =
     (case best of
        None \<Rightarrow> Some hand
      | Some b \<Rightarrow> if compareHands_inject hand b > 0 then Some hand else Some b)"

fun best_loop_inject :: "card list list \<Rightarrow> hand option \<Rightarrow> abort + hand option" where
  "best_loop_inject [] best = Inr best"
| "best_loop_inject (five # rest) best =
     (case evaluate5_inject five of
        Inl err \<Rightarrow> Inl err
      | Inr hand \<Rightarrow> best_loop_inject rest (keep_best_inject best hand))"

definition parsed_cards_inject :: "jsval list \<Rightarrow> parsed list" where
  "parsed_cards_inject cardStrings = filter (\<lambda>p. p \<noteq> Null) (map parseCard_inject cardStrings)"

definition evaluate7_inject :: "jsval list \<Rightarrow> abort + hand option" where
  "evaluate7_inject cardStrings =
     (let cards = parsed_cards_inject cardStrings;
          n = length cards
      in if n < 5 then Inr None
         else if NonCard \<in> set cards then Inl NotNumeric
         else best_loop_inject (map (pick5 (numeric_cards cards)) (combinations5 n)) None)"

text \<open>
  \<^verbatim>\<open>
  var parsed = holeCards.map(parseCard).filter(Boolean);
  if (parsed.length < 2) return 0.5;
  var c1 = parsed[0], c2 = parsed[1];
  \<close>
  and from there as in the Node module.
\<close>

definition preFlopStrength_inject :: "jsval list \<Rightarrow> abort + real" where
  "preFlopStrength_inject hole =
     (if length hole < 2 then Inr 0.5
      else
        let parsed = parsed_cards_inject hole
        in if length parsed < 2 then Inr 0.5
           else
             (case (parsed ! 0, parsed ! 1) of
                (Card a, Card b) \<Rightarrow> Inr (max 0.05 (min 0.98 (hole_score a b / 20)))
              | _ \<Rightarrow> Inl ReturnsNaN))"

text \<open>
  \<^verbatim>\<open>
  function winProbability(opts) {
    var holeCards = opts.holeCards || [];
    var boardCards = opts.boardCards || [];
    var numOpponents = opts.numOpponents != null ? opts.numOpponents : 1;
    if (holeCards.length < 2) return 0.5;
    ...
  \<close>
  Here every falsy value, \<open>null\<close>, \<open>0\<close>, \<open>NaN\<close> and \<open>false\<close> among them, is replaced
  like a missing property (an array is truthy, empty or not).
\<close>

definition board_equity_inject :: "abort + hand option \<Rightarrow> abort + real" where
  "board_equity_inject result =
     (case result of
        Inl err \<Rightarrow> Inl err
      | Inr None \<Rightarrow> Inr 0.5
      | Inr (Some r) \<Rightarrow> Inr (table_or_half (hand_rank r)))"

definition winProbability_inject :: "opts \<Rightarrow> abort + real" where
  "winProbability_inject opts =
     (let hole = (case holeCards opts of Cards xs \<Rightarrow> xs | _ \<Rightarrow> []);
          board = (case boardCards opts of Cards xs \<Rightarrow> xs | _ \<Rightarrow> []);
          n = (case numOpponents opts of Given k \<Rightarrow> k | _ \<Rightarrow> 1)
      in if length hole < 2 then Inr 0.5
         else if length board = 0 then equity_result (preFlopStrength_inject hole) n
         else equity_result (board_equity_inject (evaluate7_inject (hole @ board))) n)"

section \<open>Notions of the specification\<close>

text \<open>
  \<open>normalize\<close> is the specification's word for the canonical spelling of a token:
  rank in upper case, suit in lower case.
\<close>

definition toUpperCase_char :: "char \<Rightarrow> char" where
  "toUpperCase_char c =
     (case map_of (zip ''abcdefghijklmnopqrstuvwxyz'' ''ABCDEFGHIJKLMNOPQRSTUVWXYZ'') c of
        Some u \<Rightarrow> u
      | None \<Rightarrow> c)"

definition normalize :: "string \<Rightarrow> string" where
  "normalize t = map toUpperCase_char (butlast t) @ [toLowerCase_char (last t)]"

text \<open>
  The specification compares tiebreakers lexicographically, a sequence that is shorter
  than the other being continued with -1. \<open>padded xs k\<close> is entry \<open>k\<close> of the sequence
  \<open>xs\<close> so continued, and \<open>lex_greater a b\<close> says that at the first position where the
  two continued sequences differ, \<open>a\<close> holds the greater entry. Both are written with
  the list operations of the library, not with the code's reader \<open>entry_or_minus1\<close>.
\<close>

definition padded :: "int list \<Rightarrow> nat \<Rightarrow> int" where
  "padded xs k = (xs @ replicate (Suc k - length xs) (- 1)) ! k"

definition lex_greater :: "int list \<Rightarrow> int list \<Rightarrow> bool" where
  "lex_greater a b \<longleftrightarrow> (\<exists>k. padded b k < padded a k \<and> (\<forall>j<k. padded a j = padded b j))"

section \<open>Auxiliary notions of the proofs\<close>

text \<open>
  \<open>freq_ok rs f\<close>: the entries \<open>f\<close> hold exactly the ranks of \<open>rs\<close>, each once, with
  the number of its occurrences. \<open>ranks_desc\<close> names the list \<open>ranks\<close> of \<open>evaluate5\<close>.
\<close>

definition freq_ok :: "int list \<Rightarrow> (int \<times> nat) list \<Rightarrow> bool" where
  "freq_ok rs f \<longleftrightarrow> distinct (map fst f) \<and> fst ` set f = set rs
      \<and> (\<forall>k \<in> set rs. map_of f k = Some (count_list rs k))
      \<and> sum_list (map snd f) = length rs"

definition ranks_desc :: "card list \<Rightarrow> int list" where
  "ranks_desc cards = map rank (sort_key (\<lambda>c. - rank c) cards)"

section \<open>The codec round trip\<close>

lemma RANK_IDX_Own:
  "RANK_IDX k = Own r \<Longrightarrow> r < 13 \<and> RANKS ! r = k \<and> length k = 1 \<and> map toUpperCase_char k = k"
  by (auto simp: RANK_IDX_def index_object_def RANKS_def upt_rec toUpperCase_char_def
           split: if_splits option.splits)

lemma SUIT_IDX_Own:
  "SUIT_IDX k = Own s \<Longrightarrow> s < 4 \<and> SUITS ! s = k"
  by (auto simp: SUIT_IDX_def index_object_def SUITS_def upt_rec
           split: if_splits option.splits)

lemma parseCard_Card_shape:
  assumes "parseCard (JStr t) = Card c"
  shows "\<exists>r s. RANK_IDX (butlast t) = Own r \<and> SUIT_IDX [toLowerCase_char (last t)] = Own s
           \<and> c = \<lparr>rank = int r, suit = int s\<rparr> \<and> length t = 2"
proof -
  from assms have len: "2 \<le> length t"
    by (auto split: if_splits)
  define k where "k = (if length t = 3 then take 2 t else butlast t)"
  from assms len obtain r s where
    rs: "RANK_IDX k = Own r" "SUIT_IDX [toLowerCase_char (last t)] = Own s"
        "c = \<lparr>rank = int r, suit = int s\<rparr>"
    by (auto simp: k_def Let_def split: if_splits lookup.splits)
  from RANK_IDX_Own [OF rs(1)] have "length k = 1" by simp
  with len have "length t = 2" "k = butlast t"
    by (auto simp: k_def split: if_splits)
  with rs show ?thesis by auto
qed

lemma parse_format:
  assumes "0 \<le> rank c" "rank c \<le> 12" "0 \<le> suit c" "suit c \<le> 3"
  shows "parseCard (cardToString c) = Card c"
proof -
  obtain r s where c: "c = \<lparr>rank = r, suit = s\<rparr>" by (cases c) auto
  from assms c have "0 \<le> r" "r \<le> 12" "0 \<le> s" "s \<le> 3" by simp_all
  then have "r \<in> {0,1,2,3,4,5,6,7,8,9,10,11,12}" "s \<in> {0,1,2,3}" by (simp_all; arith)+
  then show ?thesis unfolding c
    by (elim insertE emptyE; simp add: cardToString_def array_get_def RANKS_def SUITS_def
         RANK_IDX_def SUIT_IDX_def index_object_def toLowerCase_char_def upt_rec)
qed

lemma format_parse:
  assumes "parseCard (JStr t) = Card c"
  shows "cardToString c = JStr (normalize t)"
proof -
  from parseCard_Card_shape [OF assms] obtain r s where
    rs: "RANK_IDX (butlast t) = Own r" "SUIT_IDX [toLowerCase_char (last t)] = Own s"
        "c = \<lparr>rank = int r, suit = int s\<rparr>" "length t = 2"
    by blast
  from RANK_IDX_Own [OF rs(1)] SUIT_IDX_Own [OF rs(2)] rs(3)
  show ?thesis
    by (simp add: cardToString_def array_get_def normalize_def RANKS_def SUITS_def)
qed

lemma parse_examples:
  "parseCard (JStr ''As'') = Card \<lparr>rank = 12, suit = 0\<rparr>"
  "parseCard (JStr ''Ks'') = Card \<lparr>rank = 11, suit = 0\<rparr>"
  "parseCard (JStr ''Qs'') = Card \<lparr>rank = 10, suit = 0\<rparr>"
  "parseCard (JStr ''Js'') = Card \<lparr>rank = 9, suit = 0\<rparr>"
  "parseCard (JStr ''Ts'') = Card \<lparr>rank = 8, suit = 0\<rparr>"
  "parseCard (JStr ''5s'') = Card \<lparr>rank = 3, suit = 0\<rparr>"
  "parseCard (JStr ''4h'') = Card \<lparr>rank = 2, suit = 1\<rparr>"
  "parseCard (JStr ''3d'') = Card \<lparr>rank = 1, suit = 2\<rparr>"
  "parseCard (JStr ''2c'') = Card \<lparr>rank = 0, suit = 3\<rparr>"
  "parseCard (JStr ''Ah'') = Card \<lparr>rank = 12, suit = 1\<rparr>"
  "parseCard (JStr ''2s'') = Card \<lparr>rank = 0, suit = 0\<rparr>"
  "parseCard (JStr ''7h'') = Card \<lparr>rank = 5, suit = 1\<rparr>"
  "parseCard (JStr ''Kh'') = Card \<lparr>rank = 11, suit = 1\<rparr>"
  "parseCard (JStr ''Qd'') = Card \<lparr>rank = 10, suit = 2\<rparr>"
  "parseCard (JStr ''aS'') = Null"
  "parseCard (JStr ''AS'') = Card \<lparr>rank = 12, suit = 0\<rparr>"
  by (simp_all add: RANK_IDX_def SUIT_IDX_def index_object_def RANKS_def SUITS_def
        Object_prototype_def toLowerCase_char_def upt_rec)

text \<open>
  Claim C6. Formatting a valid card (rank 0 to 12, suit 0 to 3) and parsing the result
  gives the card back; and for every token that parses to a card, formatting the card
  gives the token with its rank in upper case and its suit in lower case.
\<close>

theorem codec_round_trip:
  "(\<forall>c. 0 \<le> rank c \<and> rank c \<le> 12 \<and> 0 \<le> suit c \<and> suit c \<le> 3
        \<longrightarrow> parseCard (cardToString c) = Card c)
   \<and> (\<forall>t c. parseCard (JStr t) = Card c \<longrightarrow> cardToString c = JStr (normalize t))"
  using parse_format format_parse by blast

theorem codec_round_trip_witness:
  "parseCard (cardToString \<lparr>rank = 12, suit = 0\<rparr>) = Card \<lparr>rank = 12, suit = 0\<rparr>
   \<and> parseCard (JStr ''AS'') = Card \<lparr>rank = 12, suit = 0\<rparr>
   \<and> cardToString \<lparr>rank = 12, suit = 0\<rparr> = JStr (normalize ''AS'')
   \<and> normalize ''AS'' = ''As''"
proof -
  have p: "parseCard (JStr ''AS'') = Card \<lparr>rank = 12, suit = 0\<rparr>"
    by (rule parse_examples)
  have n: "normalize ''AS'' = ''As''"
    by (simp add: normalize_def toUpperCase_char_def toLowerCase_char_def)
  from codec_round_trip have
    "parseCard (cardToString \<lparr>rank = 12, suit = 0\<rparr>) = Card \<lparr>rank = 12, suit = 0\<rparr>"
    "cardToString \<lparr>rank = 12, suit = 0\<rparr> = JStr (normalize ''AS'')"
    using p by simp_all
  with p n show ?thesis by simp
qed

section \<open>Malformed tokens\<close>

lemmas codec_defs = RANK_IDX_def SUIT_IDX_def index_object_def RANKS_def SUITS_def
  Object_prototype_def toLowerCase_char_def upt_rec

lemma parseCard_rejects:
  "parseCard JNull = Null"
  "parseCard JUndefined = Null"
  "parseCard (JNum n) = Null"
  "length str < 2 \<Longrightarrow> parseCard (JStr str) = Null"
  "SUIT_IDX [toLowerCase_char (last str)] = Undefined \<Longrightarrow> parseCard (JStr str) = Null"
  "RANK_IDX (if length str = 3 then take 2 str else butlast str) = Undefined
     \<Longrightarrow> parseCard (JStr str) = Null"
  by (simp_all add: Let_def split: lookup.splits)

lemma index_object_Undefined_iff:
  "index_object keys k = Undefined \<longleftrightarrow> k \<notin> set keys \<and> k \<notin> set Object_prototype"
proof -
  have "fst ` set (zip keys [0..<length keys]) = set keys"
    by (metis map_fst_zip set_map length_upt diff_zero)
  then have n: "map_of (zip keys [0..<length keys]) k = None \<longleftrightarrow> k \<notin> set keys"
    by (simp add: map_of_eq_None_iff)
  show ?thesis
  proof (cases "map_of (zip keys [0..<length keys]) k")
    case None
    with n have "k \<notin> set keys" by simp
    then show ?thesis unfolding index_object_def None by simp
  next
    case (Some i)
    with n have "k \<in> set keys" by simp
    then show ?thesis unfolding index_object_def Some by simp
  qed
qed

lemma RANK_IDX_Undefined_iff:
  "RANK_IDX k = Undefined \<longleftrightarrow> k \<notin> set RANKS \<and> k \<notin> set Object_prototype"
  unfolding RANK_IDX_def by (rule index_object_Undefined_iff)

lemma SUIT_IDX_Undefined_iff: "SUIT_IDX [c] = Undefined \<longleftrightarrow> [c] \<notin> set SUITS"
  unfolding SUIT_IDX_def index_object_Undefined_iff by (simp add: Object_prototype_def)

text \<open>
  Claim C7, at the input where the code leaves it. The rank prefix \<open>constructor\<close> is
  no rank, yet \<open>RANK_IDX['constructor']\<close> is the inherited \<open>Object\<close> function, not
  \<open>undefined\<close>: \<open>parseCard\<close> returns an object instead of \<open>null\<close>, and five such
  tokens pass the \<open>cards.length < 5\<close> guard of \<open>evaluate7\<close> although none of them is
  a valid card. The cases the claim names (the empty string, \<open>Xx\<close>, \<open>null\<close>, three
  cards) do yield \<open>null\<close>.
\<close>

theorem parseCard_inherited_rank:
  "parseCard (JStr ''constructors'') = NonCard
   \<and> ''constructor'' \<notin> set RANKS
   \<and> parseCard (JStr ''toStrings'') \<noteq> Null
   \<and> evaluate7 (replicate 5 (JStr ''constructors'')) \<noteq> Inr None
   \<and> parseCard (JStr '''') = Null \<and> parseCard (JStr ''Xx'') = Null \<and> parseCard JNull = Null
   \<and> evaluate7 [JStr ''As'', JStr ''Kh'', JStr ''Qd''] = Inr None"
  by (simp add: codec_defs evaluate7_def parsed_cards_def numeral_eq_Suc)

section \<open>Pocket pairs\<close>

lemma preFlopStrength_two:
  assumes "parseCard t1 = Card c1" "parseCard t2 = Card c2"
  shows "preFlopStrength [t1, t2] = Inr (max 0.05 (min 0.98 (hole_score c1 c2 / 20)))"
  using assms by (simp add: preFlopStrength_def parsed_cards_def)

text \<open>
  Claim C9 as stated fails: for the pair of aces the quotient 20/20 is capped at 0.98
  by \<open>Math.min(0.98, score / 20)\<close>, so the result is not 1.0.
\<close>

theorem preFlopStrength_AA_counterexample:
  "preFlopStrength [JStr ''As'', JStr ''Ah''] \<noteq> Inr 1"
  by (simp add: preFlopStrength_two [OF parse_examples(1) parse_examples(10)] hole_score_def)

text \<open>
  Claim C9, amended. \<open>preFlopStrength(["As","Ah"])\<close> returns 0.98: a pocket pair scores
  twice its rank, overridden for the four top pairs (AA 20, KK 16, QQ 14, JJ 12) and
  floored at 5; the result is the score divided by 20 and clamped to [0.05, 0.98], so
  the pair of aces (score 20) yields min(0.98, 20/20) = 0.98.
\<close>

theorem preFlopStrength_pair:
  "preFlopStrength [JStr ''As'', JStr ''Ah''] = Inr 0.98
   \<and> (\<forall>t1 t2 c1 c2. parseCard t1 = Card c1 \<and> parseCard t2 = Card c2 \<and> rank c1 = rank c2 \<longrightarrow>
        preFlopStrength [t1, t2] =
          Inr (max 0.05 (min 0.98 (of_int (max 5
                 (if rank c1 = 12 then 20 else if rank c1 = 11 then 16
                  else if rank c1 = 10 then 14 else if rank c1 = 9 then 12
                  else 2 * rank c1)) / 20))))"
proof -
  have "preFlopStrength [JStr ''As'', JStr ''Ah''] = Inr 0.98"
    by (simp add: preFlopStrength_two [OF parse_examples(1) parse_examples(10)] hole_score_def)
  moreover have "preFlopStrength [t1, t2] =
          Inr (max 0.05 (min 0.98 (of_int (max 5
                 (if rank c1 = 12 then 20 else if rank c1 = 11 then 16
                  else if rank c1 = 10 then 14 else if rank c1 = 9 then 12
                  else 2 * rank c1)) / 20)))"
    if "parseCard t1 = Card c1" "parseCard t2 = Card c2" "rank c1 = rank c2" for t1 t2 c1 c2
    using that by (simp add: preFlopStrength_two hole_score_def Let_def mult.commute)
  ultimately show ?thesis by blast
qed

theorem preFlopStrength_pair_witness:
  "parseCard (JStr ''Ks'') = Card \<lparr>rank = 11, suit = 0\<rparr>
   \<and> parseCard (JStr ''Kh'') = Card \<lparr>rank = 11, suit = 1\<rparr>
   \<and> preFlopStrength [JStr ''Ks'', JStr ''Kh''] = Inr 0.8"
proof -
  have p: "parseCard (JStr ''Ks'') = Card \<lparr>rank = 11, suit = 0\<rparr>"
          "parseCard (JStr ''Kh'') = Card \<lparr>rank = 11, suit = 1\<rparr>"
    by (rule parse_examples)+
  from preFlopStrength_pair have
    "\<forall>t1 t2 c1 c2. parseCard t1 = Card c1 \<and> parseCard t2 = Card c2 \<and> rank c1 = rank c2 \<longrightarrow>
        preFlopStrength [t1, t2] =
          Inr (max 0.05 (min 0.98 (of_int (max 5
                 (if rank c1 = 12 then 20 else if rank c1 = 11 then 16
                  else if rank c1 = 10 then 14 else if rank c1 = 9 then 12
                  else 2 * rank c1)) / 20)))" by (rule conjunct2)
  from this [rule_format, of "JStr ''Ks''" "\<lparr>rank = 11, suit = 0\<rparr>" "JStr ''Kh''" "\<lparr>rank = 11, suit = 1\<rparr>"] p
  have "preFlopStrength [JStr ''Ks'', JStr ''Kh''] = Inr 0.8" by simp
  with p show ?thesis by simp
qed

section \<open>Properties of the classifier\<close>

subsection \<open>The frequency entries\<close>

lemma freq_incr_sum: "sum_list (map snd (freq_incr r f)) = Suc (sum_list (map snd f))"
  by (induction f) auto

lemma freq_incr_keys: "fst ` set (freq_incr r f) = insert r (fst ` set f)"
  by (induction r f rule: freq_incr.induct) auto

lemma freq_incr_distinct: "distinct (map fst f) \<Longrightarrow> distinct (map fst (freq_incr r f))"
proof (induction f)
  case Nil
  then show ?case by simp
next
  case (Cons kc f)
  obtain k c where kc: "kc = (k, c)" by (cases kc)
  from Cons have "k \<notin> fst ` set f" "distinct (map fst (freq_incr r f))" by (auto simp: kc)
  then show ?case using Cons.prems
    by (auto simp: kc freq_incr_keys [simplified])
qed

lemma freq_incr_map_of:
  "map_of (freq_incr r f) k =
     (if k = r then Some (case map_of f r of None \<Rightarrow> 1 | Some c \<Rightarrow> c + 1) else map_of f k)"
  by (induction f) auto


lemma fold_freq_incr_ok: "freq_ok rs f \<Longrightarrow> freq_ok (rs @ rs') (fold freq_incr rs' f)"
proof (induction rs' arbitrary: rs f)
  case Nil
  then show ?case by simp
next
  case (Cons r rs')
  from Cons.prems have d: "distinct (map fst f)" and k: "fst ` set f = set rs"
    and v: "\<And>x. x \<in> set rs \<Longrightarrow> map_of f x = Some (count_list rs x)"
    and n: "sum_list (map snd f) = length rs"
    by (auto simp: freq_ok_def)
  have none: "map_of f r = None" if "r \<notin> set rs"
    using that k by (simp add: map_of_eq_None_iff)
  have "map_of (freq_incr r f) x = Some (count_list (rs @ [r]) x)" if "x \<in> set (rs @ [r])" for x
  proof (cases "x = r")
    case True
    then show ?thesis
      by (cases "r \<in> set rs") (simp_all add: freq_incr_map_of v none)
  next
    case False
    with that show ?thesis by (simp add: freq_incr_map_of v)
  qed
  then have "freq_ok (rs @ [r]) (freq_incr r f)"
    unfolding freq_ok_def
    by (simp add: freq_incr_distinct [OF d] freq_incr_keys k n freq_incr_sum)
  from Cons.IH [OF this] show ?case by simp
qed

lemma rank_freq_ok: "freq_ok rs (rank_freq rs)"
  using fold_freq_incr_ok [of "[]" "[]" rs] by (simp add: rank_freq_def freq_ok_def)

lemma rank_freq_mem:
  "(r, c) \<in> set (rank_freq rs) \<Longrightarrow> r \<in> set rs \<and> c = count_list rs r"
proof -
  assume m: "(r, c) \<in> set (rank_freq rs)"
  from rank_freq_ok [of rs] have d: "distinct (map fst (rank_freq rs))"
    and k: "fst ` set (rank_freq rs) = set rs"
    and v: "\<forall>k \<in> set rs. map_of (rank_freq rs) k = Some (count_list rs k)"
    by (auto simp: freq_ok_def)
  from m k have "r \<in> set rs" by force
  moreover from d m have "map_of (rank_freq rs) r = Some c" by simp
  ultimately show ?thesis using v by auto
qed

lemma rank_freq_sum: "sum_list (map snd (rank_freq rs)) = length rs"
  using rank_freq_ok [of rs] by (simp add: freq_ok_def)

lemma rank_freq_Nil: "rank_freq rs = [] \<longleftrightarrow> rs = []"
  using rank_freq_ok [of rs] by (auto simp: freq_ok_def)

subsection \<open>The groups\<close>

lemma rank_groups_set: "set (rank_groups rs) = set (rank_freq rs)"
  by (simp add: rank_groups_def)

lemma rank_groups_mset: "mset (rank_groups rs) = mset (rank_freq rs)"
  by (simp add: rank_groups_def)

text \<open>
  In whatever order the entries of \<open>freq\<close> are enumerated, sorting them gives the same
  groups: the sort key tells any two entries apart.
\<close>

lemma rank_groups_any_order:
  assumes "mset entries = mset (rank_freq rs)"
  shows "sort_key (\<lambda>(r, c). (- int c, - r)) entries = rank_groups rs"
proof (rule sort_key_inj_key_eq)
  show "mset entries = mset (rank_groups rs)"
    using assms by (simp add: rank_groups_mset)
  show "inj_on (\<lambda>(r, c). (- int c, - r)) (set entries)"
    by (auto simp: inj_on_def)
  show "sorted (map (\<lambda>(r, c). (- int c, - r)) (rank_groups rs))"
    unfolding rank_groups_def by (rule sorted_sort_key)
qed

lemma rank_groups_sum: "sum_list (map snd (rank_groups rs)) = length rs"
proof -
  have "sum_list (map snd (rank_groups rs)) = sum_mset (image_mset snd (mset (rank_groups rs)))"
    by (metis mset_map sum_mset_sum_list)
  also have "\<dots> = sum_list (map snd (rank_freq rs))"
    by (metis rank_groups_mset mset_map sum_mset_sum_list)
  finally show ?thesis by (simp add: rank_freq_sum)
qed

lemma rank_groups_Nil: "rank_groups rs = [] \<longleftrightarrow> rs = []"
  using rank_groups_set [of rs] rank_freq_Nil [of rs] by (metis set_empty)

lemma group_count_mem:
  "i < length (rank_groups rs) \<Longrightarrow>
     group_count (rank_groups rs) i = count_list rs (fst (rank_groups rs ! i))
     \<and> fst (rank_groups rs ! i) \<in> set rs"
proof -
  assume "i < length (rank_groups rs)"
  then have "rank_groups rs ! i \<in> set (rank_freq rs)"
    using rank_groups_set nth_mem by blast
  then show ?thesis
    using rank_freq_mem [of "fst (rank_groups rs ! i)" "snd (rank_groups rs ! i)" rs]
    by (simp add: group_count_def)
qed

lemma single_group_count:
  assumes "length (rank_groups rs) < 2" "rs \<noteq> []"
  shows "group_count (rank_groups rs) 0 = length rs"
proof -
  from assms rank_groups_Nil [of rs] obtain g where g: "rank_groups rs = [g]"
    by (cases "rank_groups rs") (auto simp: less_Suc_eq numeral_2_eq_2)
  with rank_groups_sum [of rs] show ?thesis by (simp add: group_count_def)
qed

subsection \<open>The sorted ranks\<close>


lemma ranks_desc_length [simp]: "length (ranks_desc cards) = length cards"
  by (simp add: ranks_desc_def)

lemma ranks_desc_set [simp]: "set (ranks_desc cards) = rank ` set cards"
  by (simp add: ranks_desc_def)

lemma ranks_desc_sort: "ranks_desc cards = map uminus (sort (map (\<lambda>c. - rank c) cards))"
proof -
  have "sort (map (\<lambda>c. - rank c) cards) = map (\<lambda>c. - rank c) (sort_key (\<lambda>c. - rank c) cards)"
    by (rule properties_for_sort) (simp_all add: sorted_sort_key)
  then show ?thesis by (simp add: ranks_desc_def comp_def)
qed

lemma ranks_desc_perm: "mset cs = mset cs' \<Longrightarrow> ranks_desc cs = ranks_desc cs'"
proof -
  assume "mset cs = mset cs'"
  then have "mset (map (\<lambda>c. - rank c) cs) = mset (map (\<lambda>c. - rank c) cs')" by simp
  then have "sort (map (\<lambda>c. - rank c) cs) = sort (map (\<lambda>c. - rank c) cs')"
    by (metis properties_for_sort sorted_sort mset_sort)
  then show ?thesis by (simp add: ranks_desc_sort)
qed

lemma ranks_desc_sorted: "sorted (rev (ranks_desc cards))"
proof -
  have "sorted (map (\<lambda>c. - rank c) (sort_key (\<lambda>c. - rank c) cards))"
    by (rule sorted_sort_key)
  then have "sorted_wrt (\<lambda>x y. y \<le> x) (ranks_desc cards)"
    by (simp add: ranks_desc_def sorted_wrt_map comp_def)
  then show ?thesis by (simp add: sorted_wrt_rev)
qed

subsection \<open>evaluate5 returns, with a category from 0 to 8, and ignores the order\<close>

lemma evaluate5_returns:
  assumes "length cards = 5"
  shows "\<exists>h. evaluate5 cards = Inr h"
proof -
  let ?rs = "map rank (sort_key (\<lambda>c. - rank c) cards)"
  have len: "length ?rs = 5" using assms by simp
  have ne': "sort_key (\<lambda>c. - rank c) cards \<noteq> []"
    using assms by (metis length_sort list.size(3) zero_neq_numeral)
  then have ne: "?rs \<noteq> []" by simp
  have g0: "rank_groups ?rs \<noteq> []" using ne rank_groups_Nil by blast
  have g1: "\<not> length (rank_groups ?rs) < 2" if "group_count (rank_groups ?rs) 0 \<noteq> 5"
    using single_group_count [OF _ ne] len that by auto
  show ?thesis
    using g0 g1 ne' by (auto simp: evaluate5_def Let_def)
qed

lemma evaluate5_category:
  "evaluate5 cards = Inr h \<Longrightarrow> 0 \<le> hand_rank h \<and> hand_rank h \<le> 8"
  by (auto simp: evaluate5_def Let_def HIGH_CARD_def ONE_PAIR_def TWO_PAIR_def THREE_OF_A_KIND_def
        STRAIGHT_def FLUSH_def FULL_HOUSE_def FOUR_OF_A_KIND_def STRAIGHT_FLUSH_def
      split: if_splits)

lemma evaluate5_perm:
  assumes "mset cs = mset cs'"
  shows "evaluate5 cs = evaluate5 cs'"
proof -
  have r: "map rank (sort_key (\<lambda>c. - rank c) cs) = map rank (sort_key (\<lambda>c. - rank c) cs')"
    using ranks_desc_perm [OF assms] by (simp add: ranks_desc_def)
  have "set cs = set cs'" using assms by (rule mset_eq_setD)
  then have s: "length (remdups (map suit (sort_key (\<lambda>c. - rank c) cs)))
      = length (remdups (map suit (sort_key (\<lambda>c. - rank c) cs')))"
    by (simp add: length_remdups_card_conv)
  show ?thesis
    unfolding evaluate5_def Let_def r s ..
qed

lemmas category_defs = HIGH_CARD_def ONE_PAIR_def TWO_PAIR_def THREE_OF_A_KIND_def
  STRAIGHT_def FLUSH_def FULL_HOUSE_def FOUR_OF_A_KIND_def STRAIGHT_FLUSH_def

lemma five_desc:
  assumes "length rs = 5" "sorted (rev rs)"
  obtains a b c d e :: int where "rs = [a, b, c, d, e]" "b \<le> a" "c \<le> b" "d \<le> c" "e \<le> d"
proof -
  from assms(1) obtain a b c d e where rs: "rs = [a, b, c, d, e]"
    by (auto simp: length_Suc_conv numeral_eq_Suc)
  with assms(2) have "b \<le> a" "c \<le> b" "d \<le> c" "e \<le> d"
    by (auto simp: sorted_append)
  with rs that show ?thesis by blast
qed

lemma wheel_iff:
  assumes "e < d" "d < c" "c < b" "b < (a::int)"
  shows "{a, b, c, d, e} = {12, 3, 2, 1, 0} \<longleftrightarrow> a = 12 \<and> b = 3 \<and> c = 2 \<and> d = 1 \<and> e = 0"
proof
  assume eq: "{a, b, c, d, e} = {12, 3, 2, 1, 0}"
  have mm: "Max {a, b, c, d, e} = a" "Min {a, b, c, d, e} = e" using assms by simp_all
  have "Max {12, 3, 2, 1, 0::int} = 12" "Min {12, 3, 2, 1, 0::int} = 0" by simp_all
  with mm have a: "a = 12" and e: "e = 0" unfolding eq by simp_all
  from eq have "b \<in> {12, 3, 2, 1, 0}" "c \<in> {12, 3, 2, 1, 0}" "d \<in> {12, 3, 2, 1, 0}"
    by (metis insertI1 insertI2)+
  then have "b = 12 \<or> b = 3 \<or> b = 2 \<or> b = 1 \<or> b = 0" "c = 12 \<or> c = 3 \<or> c = 2 \<or> c = 1 \<or> c = 0"
     "d = 12 \<or> d = 3 \<or> d = 2 \<or> d = 1 \<or> d = 0" by simp_all
  with assms a e show "a = 12 \<and> b = 3 \<and> c = 2 \<and> d = 1 \<and> e = 0" by linarith
next
  assume "a = 12 \<and> b = 3 \<and> c = 2 \<and> d = 1 \<and> e = 0"
  then show "{a, b, c, d, e} = {12, 3, 2, 1, 0}" by simp
qed

lemma straight_of_strict:
  assumes "e < d" "d < c" "c < b" "b < (a::int)"
  shows "straight_of [a, b, c, d, e] =
     (if {a, b, c, d, e} = {12, 3, 2, 1, 0} then (True, 3)
      else if Max {a, b, c, d, e} - Min {a, b, c, d, e} = 4 then (True, Max {a, b, c, d, e})
      else (False, - 1))"
proof -
  have mx: "Max {a, b, c, d, e} = a" and mn: "Min {a, b, c, d, e} = e"
    using assms by simp_all
  have "distinct [a, b, c, d, e]" using assms by auto
  then have "remdups [a, b, c, d, e] = [a, b, c, d, e]" by (rule distinct_remdups_id)
  then have "length (remdups [a, b, c, d, e]) = 5" by simp
  then show ?thesis
    unfolding wheel_iff [OF assms] mx mn by (simp add: straight_of_def)
qed

lemma straight_of_ranks_desc:
  assumes "length cards = 5"
  shows "straight_of (ranks_desc cards) =
     (if card (rank ` set cards) = 5 \<and> rank ` set cards = {12, 3, 2, 1, 0} then (True, 3)
      else if card (rank ` set cards) = 5 \<and> Max (rank ` set cards) - Min (rank ` set cards) = 4
           then (True, Max (rank ` set cards))
      else (False, - 1))"
proof -
  have len: "length (ranks_desc cards) = 5" using assms by simp
  from len ranks_desc_sorted [of cards] obtain a b c d e where
    rs: "ranks_desc cards = [a, b, c, d, e]" and le: "b \<le> a" "c \<le> b" "d \<le> c" "e \<le> d"
    by (rule five_desc)
  have R: "rank ` set cards = {a, b, c, d, e}"
    using ranks_desc_set [of cards] unfolding rs by simp
  have cardR: "card (rank ` set cards) = length (remdups (ranks_desc cards))"
    by (simp add: length_remdups_card_conv)
  show ?thesis
  proof (cases "distinct (ranks_desc cards)")
    case True
    with rs le have lt: "e < d" "d < c" "c < b" "b < a" by auto
    from True have "card (rank ` set cards) = 5"
      unfolding cardR using assms by (simp add: distinct_remdups_id)
    then show ?thesis
      unfolding rs R straight_of_strict [OF lt] by simp
  next
    case False
    then have "length (remdups (ranks_desc cards)) \<noteq> 5"
      using len length_remdups_eq [of "ranks_desc cards"] by simp
    then show ?thesis
      using cardR by (simp add: straight_of_def)
  qed
qed


lemma distinct_count_list: "distinct xs \<Longrightarrow> x \<in> set xs \<Longrightarrow> count_list xs x = 1"
  by (induction xs) (auto simp: count_notin)

lemma flush_card:
  "length (remdups (map suit (sort_key (\<lambda>c. - rank c) cards))) = card (suit ` set cards)"
  by (simp add: length_remdups_card_conv)

lemma evaluate5_straight:
  assumes "length cards = 5" "straight_of (ranks_desc cards) = (True, hi)"
  shows "evaluate5 cards =
     Inr (if card (suit ` set cards) = 1
          then \<lparr>hand_rank = STRAIGHT_FLUSH, tiebreaker = [hi],
                name = (if hi = 12 then ''Royal Flush'' else ''Straight Flush'')\<rparr>
          else \<lparr>hand_rank = STRAIGHT, tiebreaker = [hi], name = ''Straight''\<rparr>)"
proof -
  let ?rs = "ranks_desc cards"
  let ?gs = "rank_groups ?rs"
  have len: "length ?rs = 5" using assms(1) by simp
  from assms(2) have "length (remdups ?rs) = 5"
    by (auto simp: straight_of_def split: if_splits)
  with len have d: "distinct ?rs"
    using length_remdups_eq [of ?rs] by simp
  have "?rs \<noteq> []" by (metis len list.size(3) zero_neq_numeral)
  then have g0: "?gs \<noteq> []" by (simp add: rank_groups_Nil)
  then have "0 < length ?gs" by simp
  from group_count_mem [OF this] d have c1: "group_count ?gs 0 = 1"
    by (simp add: distinct_count_list)
  show ?thesis
    unfolding evaluate5_def Let_def flush_card
    unfolding ranks_desc_def [symmetric] assms(2)
    using g0 c1 by simp
qed

lemma evaluate5_not_straight:
  assumes "evaluate5 cards = Inr h" "\<not> fst (straight_of (ranks_desc cards))"
  shows "hand_rank h \<noteq> STRAIGHT \<and> hand_rank h \<noteq> STRAIGHT_FLUSH"
  using assms unfolding evaluate5_def Let_def ranks_desc_def [symmetric]
  by (auto simp: category_defs split: if_splits)

lemma straight_shape:
  assumes "length cards = 5"
  shows "\<exists>h. evaluate5 cards = Inr h
     \<and> ((hand_rank h = STRAIGHT \<or> hand_rank h = STRAIGHT_FLUSH) \<longleftrightarrow>
          card (rank ` set cards) = 5
          \<and> (Max (rank ` set cards) - Min (rank ` set cards) = 4
               \<or> rank ` set cards = {12, 3, 2, 1, 0}))
     \<and> (card (rank ` set cards) = 5 \<and> Max (rank ` set cards) - Min (rank ` set cards) = 4
          \<longrightarrow> tiebreaker h = [Max (rank ` set cards)])
     \<and> (rank ` set cards = {12, 3, 2, 1, 0} \<longrightarrow> tiebreaker h = [3])"
proof -
  let ?R = "rank ` set cards"
  have c5: "card {12, 3, 2, 1, 0::int} = 5" by simp
  have w4: "Max {12, 3, 2, 1, 0::int} - Min {12, 3, 2, 1, 0::int} \<noteq> 4" by simp
  from evaluate5_returns [OF assms] obtain h where h: "evaluate5 cards = Inr h" by blast
  show ?thesis
  proof (cases "fst (straight_of (ranks_desc cards))")
    case True
    then obtain hi where s: "straight_of (ranks_desc cards) = (True, hi)"
      by (cases "straight_of (ranks_desc cards)") auto
    from evaluate5_straight [OF assms s] h
    have r: "hand_rank h = STRAIGHT \<or> hand_rank h = STRAIGHT_FLUSH" and t: "tiebreaker h = [hi]"
      by (auto split: if_splits)
    from s show ?thesis
      unfolding straight_of_ranks_desc [OF assms] using h r t w4
      by (auto split: if_splits)
  next
    case False
    from evaluate5_not_straight [OF h False] False show ?thesis
      unfolding straight_of_ranks_desc [OF assms] using h c5 
      by (auto split: if_splits)
  qed
qed

text \<open>
  Claim C5. Five cards always get a category, one of the nine values 0 to 8 (the
  function returns, and returns no error), and the result depends on the cards only,
  not on their order: two lists with the same multiset of cards get the same
  evaluation (category, tiebreaker and name).
\<close>

theorem evaluate5_category_invariant:
  "(\<forall>cards. length cards = 5 \<longrightarrow>
      (\<exists>h. evaluate5 cards = Inr h \<and> 0 \<le> hand_rank h \<and> hand_rank h \<le> 8))
   \<and> (\<forall>cards cards'. mset cards = mset cards' \<longrightarrow> evaluate5 cards = evaluate5 cards')"
  using evaluate5_returns evaluate5_category evaluate5_perm by blast

theorem evaluate5_category_invariant_witness:
  "length [\<lparr>rank = 12, suit = 1\<rparr>, \<lparr>rank = 12, suit = 2\<rparr>, \<lparr>rank = 12, suit = 3\<rparr>,
           \<lparr>rank = 0, suit = 1\<rparr>, \<lparr>rank = 1, suit = 1\<rparr>] = 5
   \<and> mset [\<lparr>rank = 12, suit = 1\<rparr>, \<lparr>rank = 12, suit = 2\<rparr>, \<lparr>rank = 12, suit = 3\<rparr>,
            \<lparr>rank = 0, suit = 1\<rparr>, \<lparr>rank = 1, suit = 1\<rparr>]
     = mset [\<lparr>rank = 1, suit = 1\<rparr>, \<lparr>rank = 12, suit = 3\<rparr>, \<lparr>rank = 0, suit = 1\<rparr>,
             \<lparr>rank = 12, suit = 1\<rparr>, \<lparr>rank = 12, suit = 2\<rparr>]
   \<and> (\<exists>h. evaluate5 [\<lparr>rank = 12, suit = 1\<rparr>, \<lparr>rank = 12, suit = 2\<rparr>, \<lparr>rank = 12, suit = 3\<rparr>,
                       \<lparr>rank = 0, suit = 1\<rparr>, \<lparr>rank = 1, suit = 1\<rparr>] = Inr h
          \<and> 0 \<le> hand_rank h \<and> hand_rank h \<le> 8)
   \<and> evaluate5 [\<lparr>rank = 12, suit = 1\<rparr>, \<lparr>rank = 12, suit = 2\<rparr>, \<lparr>rank = 12, suit = 3\<rparr>,
                 \<lparr>rank = 0, suit = 1\<rparr>, \<lparr>rank = 1, suit = 1\<rparr>]
     = evaluate5 [\<lparr>rank = 1, suit = 1\<rparr>, \<lparr>rank = 12, suit = 3\<rparr>, \<lparr>rank = 0, suit = 1\<rparr>,
                  \<lparr>rank = 12, suit = 1\<rparr>, \<lparr>rank = 12, suit = 2\<rparr>]"
proof -
  let ?cs = "[\<lparr>rank = 12, suit = 1\<rparr>, \<lparr>rank = 12, suit = 2\<rparr>, \<lparr>rank = 12, suit = 3\<rparr>,
           \<lparr>rank = 0, suit = 1\<rparr>, \<lparr>rank = 1, suit = 1\<rparr>]"
  let ?cs' = "[\<lparr>rank = 1, suit = 1\<rparr>, \<lparr>rank = 12, suit = 3\<rparr>, \<lparr>rank = 0, suit = 1\<rparr>,
             \<lparr>rank = 12, suit = 1\<rparr>, \<lparr>rank = 12, suit = 2\<rparr>]"
  have l: "length ?cs = 5" by simp
  have m: "mset ?cs = mset ?cs'" by simp
  from evaluate5_category_invariant l
  have a: "\<exists>h. evaluate5 ?cs = Inr h \<and> 0 \<le> hand_rank h \<and> hand_rank h \<le> 8" by blast
  from evaluate5_category_invariant m
  have b: "evaluate5 ?cs = evaluate5 ?cs'" by blast
  from l m a b show ?thesis by blast
qed

subsection \<open>Straights\<close>

lemma wheel_example:
  "evaluate5 [\<lparr>rank = 3, suit = 0\<rparr>, \<lparr>rank = 2, suit = 1\<rparr>, \<lparr>rank = 1, suit = 2\<rparr>,
              \<lparr>rank = 0, suit = 3\<rparr>, \<lparr>rank = 12, suit = 0\<rparr>]
   = Inr \<lparr>hand_rank = STRAIGHT, tiebreaker = [3], name = ''Straight''\<rparr>"
  by (rule trans [OF evaluate5_straight [where hi = 3]])
     (simp_all add: ranks_desc_def straight_of_def card_insert_if)

lemma royal_example:
  "evaluate5 [\<lparr>rank = 12, suit = 0\<rparr>, \<lparr>rank = 11, suit = 0\<rparr>, \<lparr>rank = 10, suit = 0\<rparr>,
              \<lparr>rank = 9, suit = 0\<rparr>, \<lparr>rank = 8, suit = 0\<rparr>]
   = Inr \<lparr>hand_rank = STRAIGHT_FLUSH, tiebreaker = [12], name = ''Royal Flush''\<rparr>"
  by (rule trans [OF evaluate5_straight [where hi = 12]])
     (simp_all add: ranks_desc_def straight_of_def)

text \<open>
  Claim C2. For five cards the category is Straight or StraightFlush exactly when the
  ranks are five distinct values that are either consecutive (highest minus lowest is
  4) or the wheel \<open>{12, 3, 2, 1, 0}\<close>; the tiebreaker is the highest rank for
  consecutive ranks and 3 for the wheel. The five cards 5s 4h 3d 2c As are a Straight
  with tiebreaker [3].
\<close>

theorem straight_detection:
  "(\<forall>cards. length cards = 5 \<longrightarrow>
      (\<exists>h. evaluate5 cards = Inr h
         \<and> ((hand_rank h = STRAIGHT \<or> hand_rank h = STRAIGHT_FLUSH) \<longleftrightarrow>
              card (rank ` set cards) = 5
              \<and> (Max (rank ` set cards) - Min (rank ` set cards) = 4
                   \<or> rank ` set cards = {12, 3, 2, 1, 0}))
         \<and> (card (rank ` set cards) = 5 \<and> Max (rank ` set cards) - Min (rank ` set cards) = 4
              \<longrightarrow> tiebreaker h = [Max (rank ` set cards)])
         \<and> (rank ` set cards = {12, 3, 2, 1, 0} \<longrightarrow> tiebreaker h = [3])))
   \<and> map parseCard [JStr ''5s'', JStr ''4h'', JStr ''3d'', JStr ''2c'', JStr ''As'']
       = map Card [\<lparr>rank = 3, suit = 0\<rparr>, \<lparr>rank = 2, suit = 1\<rparr>, \<lparr>rank = 1, suit = 2\<rparr>,
                   \<lparr>rank = 0, suit = 3\<rparr>, \<lparr>rank = 12, suit = 0\<rparr>]
   \<and> evaluate5 [\<lparr>rank = 3, suit = 0\<rparr>, \<lparr>rank = 2, suit = 1\<rparr>, \<lparr>rank = 1, suit = 2\<rparr>,
                 \<lparr>rank = 0, suit = 3\<rparr>, \<lparr>rank = 12, suit = 0\<rparr>]
       = Inr \<lparr>hand_rank = STRAIGHT, tiebreaker = [3], name = ''Straight''\<rparr>"
proof -
  have "map parseCard [JStr ''5s'', JStr ''4h'', JStr ''3d'', JStr ''2c'', JStr ''As'']
       = map Card [\<lparr>rank = 3, suit = 0\<rparr>, \<lparr>rank = 2, suit = 1\<rparr>, \<lparr>rank = 1, suit = 2\<rparr>,
                   \<lparr>rank = 0, suit = 3\<rparr>, \<lparr>rank = 12, suit = 0\<rparr>]"
    by (simp add: parse_examples del: parseCard.simps)
  with straight_shape wheel_example show ?thesis by blast
qed

theorem straight_detection_witness:
  "length [\<lparr>rank = 5, suit = 0\<rparr>, \<lparr>rank = 7, suit = 1\<rparr>, \<lparr>rank = 4, suit = 2\<rparr>,
           \<lparr>rank = 6, suit = 3\<rparr>, \<lparr>rank = 3, suit = 0\<rparr>] = 5
   \<and> card (rank ` set [\<lparr>rank = 5, suit = 0\<rparr>, \<lparr>rank = 7, suit = 1\<rparr>, \<lparr>rank = 4, suit = 2\<rparr>,
           \<lparr>rank = 6, suit = 3\<rparr>, \<lparr>rank = 3, suit = 0\<rparr>]) = 5
   \<and> (\<exists>h. evaluate5 [\<lparr>rank = 5, suit = 0\<rparr>, \<lparr>rank = 7, suit = 1\<rparr>, \<lparr>rank = 4, suit = 2\<rparr>,
           \<lparr>rank = 6, suit = 3\<rparr>, \<lparr>rank = 3, suit = 0\<rparr>] = Inr h
        \<and> (hand_rank h = STRAIGHT \<or> hand_rank h = STRAIGHT_FLUSH) \<and> tiebreaker h = [7])
   \<and> rank ` set [\<lparr>rank = 12, suit = 1\<rparr>, \<lparr>rank = 0, suit = 0\<rparr>, \<lparr>rank = 1, suit = 2\<rparr>,
           \<lparr>rank = 2, suit = 3\<rparr>, \<lparr>rank = 3, suit = 1\<rparr>] = {12, 3, 2, 1, 0}
   \<and> (\<exists>h. evaluate5 [\<lparr>rank = 12, suit = 1\<rparr>, \<lparr>rank = 0, suit = 0\<rparr>, \<lparr>rank = 1, suit = 2\<rparr>,
           \<lparr>rank = 2, suit = 3\<rparr>, \<lparr>rank = 3, suit = 1\<rparr>] = Inr h
        \<and> (hand_rank h = STRAIGHT \<or> hand_rank h = STRAIGHT_FLUSH) \<and> tiebreaker h = [3])"
proof -
  let ?cs = "[\<lparr>rank = 5, suit = 0\<rparr>, \<lparr>rank = 7, suit = 1\<rparr>, \<lparr>rank = 4, suit = 2\<rparr>,
           \<lparr>rank = 6, suit = 3\<rparr>, \<lparr>rank = 3, suit = 0\<rparr>]"
  let ?ws = "[\<lparr>rank = 12, suit = 1\<rparr>, \<lparr>rank = 0, suit = 0\<rparr>, \<lparr>rank = 1, suit = 2\<rparr>,
           \<lparr>rank = 2, suit = 3\<rparr>, \<lparr>rank = 3, suit = 1\<rparr>]"
  have l: "length ?cs = 5" by simp
  have R: "rank ` set ?cs = {5, 7, 4, 6, 3}" by simp
  have c: "card (rank ` set ?cs) = 5" unfolding R by simp
  have m: "Max (rank ` set ?cs) = 7" "Min (rank ` set ?cs) = 3" unfolding R by simp_all
  from straight_detection l obtain h where
    h: "evaluate5 ?cs = Inr h"
     "(hand_rank h = STRAIGHT \<or> hand_rank h = STRAIGHT_FLUSH) \<longleftrightarrow>
              card (rank ` set ?cs) = 5
              \<and> (Max (rank ` set ?cs) - Min (rank ` set ?cs) = 4
                   \<or> rank ` set ?cs = {12, 3, 2, 1, 0})"
     "card (rank ` set ?cs) = 5 \<and> Max (rank ` set ?cs) - Min (rank ` set ?cs) = 4
              \<longrightarrow> tiebreaker h = [Max (rank ` set ?cs)]"
    by blast
  from h(2) c m have "hand_rank h = STRAIGHT \<or> hand_rank h = STRAIGHT_FLUSH" by simp
  moreover from h(3) c m have "tiebreaker h = [7]" by simp
  ultimately have first: "\<exists>h. evaluate5 ?cs = Inr h
        \<and> (hand_rank h = STRAIGHT \<or> hand_rank h = STRAIGHT_FLUSH) \<and> tiebreaker h = [7]"
    using h(1) by blast
  have lw: "length ?ws = 5" by simp
  have W: "rank ` set ?ws = {12, 3, 2, 1, 0}" by auto
  have cw: "card (rank ` set ?ws) = 5" unfolding W by simp
  from straight_detection lw obtain g where
    g: "evaluate5 ?ws = Inr g"
     "(hand_rank g = STRAIGHT \<or> hand_rank g = STRAIGHT_FLUSH) \<longleftrightarrow>
              card (rank ` set ?ws) = 5
              \<and> (Max (rank ` set ?ws) - Min (rank ` set ?ws) = 4
                   \<or> rank ` set ?ws = {12, 3, 2, 1, 0})"
     "rank ` set ?ws = {12, 3, 2, 1, 0} \<longrightarrow> tiebreaker g = [3]"
    by blast
  from g(2) cw W have "hand_rank g = STRAIGHT \<or> hand_rank g = STRAIGHT_FLUSH" by blast
  moreover from g(3) W have "tiebreaker g = [3]" by blast
  ultimately have second: "\<exists>h. evaluate5 ?ws = Inr h
        \<and> (hand_rank h = STRAIGHT \<or> hand_rank h = STRAIGHT_FLUSH) \<and> tiebreaker h = [3]"
    using g(1) by blast
  from l c first W second show ?thesis by blast
qed

text \<open>
  Claim C3. Five cards of one suit whose ranks form a straight are a StraightFlush,
  with the straight's high rank as the only tiebreaker, named Royal Flush when that
  rank is 12 and Straight Flush otherwise. As Ks Qs Js Ts is a StraightFlush with
  tiebreaker [12], named Royal Flush.
\<close>

theorem straight_flush_precedence:
  "(\<forall>cards s. length cards = 5 \<and> suit ` set cards = {s}
        \<and> card (rank ` set cards) = 5
        \<and> (Max (rank ` set cards) - Min (rank ` set cards) = 4
             \<or> rank ` set cards = {12, 3, 2, 1, 0}) \<longrightarrow>
      (\<exists>hi. hi = (if rank ` set cards = {12, 3, 2, 1, 0} then 3 else Max (rank ` set cards))
         \<and> evaluate5 cards =
             Inr \<lparr>hand_rank = STRAIGHT_FLUSH, tiebreaker = [hi],
                  name = (if hi = 12 then ''Royal Flush'' else ''Straight Flush'')\<rparr>))
   \<and> map parseCard [JStr ''As'', JStr ''Ks'', JStr ''Qs'', JStr ''Js'', JStr ''Ts'']
       = map Card [\<lparr>rank = 12, suit = 0\<rparr>, \<lparr>rank = 11, suit = 0\<rparr>, \<lparr>rank = 10, suit = 0\<rparr>,
                   \<lparr>rank = 9, suit = 0\<rparr>, \<lparr>rank = 8, suit = 0\<rparr>]
   \<and> evaluate5 [\<lparr>rank = 12, suit = 0\<rparr>, \<lparr>rank = 11, suit = 0\<rparr>, \<lparr>rank = 10, suit = 0\<rparr>,
                 \<lparr>rank = 9, suit = 0\<rparr>, \<lparr>rank = 8, suit = 0\<rparr>]
       = Inr \<lparr>hand_rank = STRAIGHT_FLUSH, tiebreaker = [12], name = ''Royal Flush''\<rparr>"
proof -
  have p: "map parseCard [JStr ''As'', JStr ''Ks'', JStr ''Qs'', JStr ''Js'', JStr ''Ts'']
       = map Card [\<lparr>rank = 12, suit = 0\<rparr>, \<lparr>rank = 11, suit = 0\<rparr>, \<lparr>rank = 10, suit = 0\<rparr>,
                   \<lparr>rank = 9, suit = 0\<rparr>, \<lparr>rank = 8, suit = 0\<rparr>]"
    by (simp add: parse_examples del: parseCard.simps)
  have g: "evaluate5 cards =
             Inr \<lparr>hand_rank = STRAIGHT_FLUSH,
                  tiebreaker = [if rank ` set cards = {12, 3, 2, 1, 0} then 3 else Max (rank ` set cards)],
                  name = (if (if rank ` set cards = {12, 3, 2, 1, 0} then 3 else Max (rank ` set cards)) = 12
                          then ''Royal Flush'' else ''Straight Flush'')\<rparr>"
    if "length cards = 5" "suit ` set cards = {s}" "card (rank ` set cards) = 5"
       "Max (rank ` set cards) - Min (rank ` set cards) = 4 \<or> rank ` set cards = {12, 3, 2, 1, 0}"
    for cards s
  proof -
    from that(3,4) have
      "straight_of (ranks_desc cards) =
         (True, if rank ` set cards = {12, 3, 2, 1, 0} then 3 else Max (rank ` set cards))"
      unfolding straight_of_ranks_desc [OF that(1)] by auto
    from evaluate5_straight [OF that(1) this] that(2) show ?thesis by simp
  qed
  from g p royal_example show ?thesis by blast
qed

theorem straight_flush_precedence_witness:
  "length [\<lparr>rank = 3, suit = 2\<rparr>, \<lparr>rank = 2, suit = 2\<rparr>, \<lparr>rank = 1, suit = 2\<rparr>,
           \<lparr>rank = 0, suit = 2\<rparr>, \<lparr>rank = 12, suit = 2\<rparr>] = 5
   \<and> suit ` set [\<lparr>rank = 3, suit = 2\<rparr>, \<lparr>rank = 2, suit = 2\<rparr>, \<lparr>rank = 1, suit = 2\<rparr>,
           \<lparr>rank = 0, suit = 2\<rparr>, \<lparr>rank = 12, suit = 2\<rparr>] = {2}
   \<and> rank ` set [\<lparr>rank = 3, suit = 2\<rparr>, \<lparr>rank = 2, suit = 2\<rparr>, \<lparr>rank = 1, suit = 2\<rparr>,
           \<lparr>rank = 0, suit = 2\<rparr>, \<lparr>rank = 12, suit = 2\<rparr>] = {12, 3, 2, 1, 0}
   \<and> evaluate5 [\<lparr>rank = 3, suit = 2\<rparr>, \<lparr>rank = 2, suit = 2\<rparr>, \<lparr>rank = 1, suit = 2\<rparr>,
           \<lparr>rank = 0, suit = 2\<rparr>, \<lparr>rank = 12, suit = 2\<rparr>]
       = Inr \<lparr>hand_rank = STRAIGHT_FLUSH, tiebreaker = [3], name = ''Straight Flush''\<rparr>"
proof -
  let ?cs = "[\<lparr>rank = 3, suit = 2\<rparr>, \<lparr>rank = 2, suit = 2\<rparr>, \<lparr>rank = 1, suit = 2\<rparr>,
           \<lparr>rank = 0, suit = 2\<rparr>, \<lparr>rank = 12, suit = 2\<rparr>]"
  have l: "length ?cs = 5" by simp
  have s: "suit ` set ?cs = {2}" by simp
  have R: "rank ` set ?cs = {12, 3, 2, 1, 0}" by auto
  have c: "card (rank ` set ?cs) = 5" unfolding R by simp
  from straight_flush_precedence l s R c
  have "\<exists>hi. hi = (if rank ` set ?cs = {12, 3, 2, 1, 0} then 3 else Max (rank ` set ?cs))
         \<and> evaluate5 ?cs =
             Inr \<lparr>hand_rank = STRAIGHT_FLUSH, tiebreaker = [hi],
                  name = (if hi = 12 then ''Royal Flush'' else ''Straight Flush'')\<rparr>"
    by blast
  then have "evaluate5 ?cs
       = Inr \<lparr>hand_rank = STRAIGHT_FLUSH, tiebreaker = [3], name = ''Straight Flush''\<rparr>"
    unfolding R by simp
  with l s R show ?thesis by blast
qed

section \<open>Properties of the comparator\<close>

declare compare_loop.simps [simp del]

lemma compare_loop_anti: "compare_loop b a len i = - compare_loop a b len i"
proof (induction a b len i rule: compare_loop.induct)
  case (1 a b len i)
  have L: "compare_loop b a len i =
     (if i < len then
        (if entry_or_minus1 b i \<noteq> entry_or_minus1 a i
         then entry_or_minus1 b i - entry_or_minus1 a i
         else compare_loop b a len (i + 1))
      else 0)" by (rule compare_loop.simps)
  have R: "compare_loop a b len i =
     (if i < len then
        (if entry_or_minus1 a i \<noteq> entry_or_minus1 b i
         then entry_or_minus1 a i - entry_or_minus1 b i
         else compare_loop a b len (i + 1))
      else 0)" by (rule compare_loop.simps)
  show ?case unfolding L R using 1 by auto
qed

lemma compare_loop_refl: "compare_loop a a len i = 0"
  using compare_loop_anti [of a a len i] by simp

lemma compare_loop_pos:
  "0 < compare_loop a b len i \<longleftrightarrow>
     (\<exists>k. i \<le> k \<and> k < len \<and> entry_or_minus1 b k < entry_or_minus1 a k
          \<and> (\<forall>j. i \<le> j \<and> j < k \<longrightarrow> entry_or_minus1 a j = entry_or_minus1 b j))"
proof (induction a b len i rule: compare_loop.induct)
  case (1 a b len i)
  let ?pa = "entry_or_minus1 a" and ?pb = "entry_or_minus1 b"
  have U: "compare_loop a b len i =
     (if i < len then
        (if entry_or_minus1 a i \<noteq> entry_or_minus1 b i
         then entry_or_minus1 a i - entry_or_minus1 b i
         else compare_loop a b len (i + 1))
      else 0)" by (rule compare_loop.simps)
  let ?R = "\<lambda>i. \<exists>k. i \<le> k \<and> k < len \<and> ?pb k < ?pa k \<and> (\<forall>j. i \<le> j \<and> j < k \<longrightarrow> ?pa j = ?pb j)"
  show ?case
  proof (cases "i < len")
    case False
    then show ?thesis unfolding U by auto
  next
    case lt: True
    show ?thesis
    proof (cases "?pa i = ?pb i")
      case False
      have "?R i \<longleftrightarrow> ?pb i < ?pa i"
      proof
        assume "?R i"
        then obtain k where k: "i \<le> k" "?pb k < ?pa k" "\<forall>j. i \<le> j \<and> j < k \<longrightarrow> ?pa j = ?pb j"
          by blast
        have "k = i"
        proof (rule ccontr)
          assume "k \<noteq> i"
          with k(1) have "i < k" by simp
          with k(3) have "?pa i = ?pb i" by simp
          with False show False by simp
        qed
        with k show "?pb i < ?pa i" by simp
      next
        assume "?pb i < ?pa i"
        with lt show "?R i" by (intro exI [of _ i]) auto
      qed
      with lt False show ?thesis unfolding U by auto
    next
      case True
      have "?R i \<longleftrightarrow> ?R (i + 1)"
      proof
        assume "?R i"
        then obtain k where k: "i \<le> k" "k < len" "?pb k < ?pa k"
          "\<forall>j. i \<le> j \<and> j < k \<longrightarrow> ?pa j = ?pb j" by blast
        with True have "k \<noteq> i" by auto
        with k have "i + 1 \<le> k" by simp
        with k show "?R (i + 1)" by (intro exI [of _ k]) auto
      next
        assume "?R (i + 1)"
        then obtain k where k: "i + 1 \<le> k" "k < len" "?pb k < ?pa k"
          "\<forall>j. i + 1 \<le> j \<and> j < k \<longrightarrow> ?pa j = ?pb j" by blast
        have "?pa j = ?pb j" if "i \<le> j" "j < k" for j
          using that True k(4) by (cases "j = i") auto
        with k show "?R i" by (intro exI [of _ k]) auto
      qed
      with lt True "1.IH" show ?thesis unfolding U by simp
    qed
  qed
qed

lemma entry_beyond: "length xs \<le> k \<Longrightarrow> entry_or_minus1 xs k = - 1"
  by (simp add: entry_or_minus1_def)

lemma padded_within: "k < length xs \<Longrightarrow> padded xs k = xs ! k"
  by (simp add: padded_def nth_append)

lemma padded_beyond: "length xs \<le> k \<Longrightarrow> padded xs k = - 1"
  by (simp add: padded_def nth_append)

text \<open>The code's reader \<open>a.tiebreaker[i] ?? -1\<close> reads the continued sequence.\<close>

lemma entry_padded: "entry_or_minus1 xs k = padded xs k"
  by (cases "k < length xs") (simp_all add: entry_or_minus1_def padded_within padded_beyond)

lemma lex_greater_entry:
  "lex_greater a b \<longleftrightarrow>
     (\<exists>k. entry_or_minus1 b k < entry_or_minus1 a k
          \<and> (\<forall>j<k. entry_or_minus1 a j = entry_or_minus1 b j))"
  by (simp add: lex_greater_def entry_padded)

lemma compare_loop_max_pos:
  "0 < compare_loop a b (max (length a) (length b)) 0 \<longleftrightarrow> lex_greater a b"
proof -
  have "k < max (length a) (length b)" if "entry_or_minus1 b k < entry_or_minus1 a k" for k
  proof (rule ccontr)
    assume "\<not> k < max (length a) (length b)"
    then have "length a \<le> k" "length b \<le> k" by simp_all
    with that show False by (simp add: entry_beyond)
  qed
  then show ?thesis
    unfolding compare_loop_pos lex_greater_entry by auto
qed

lemma compareHands_refl: "compareHands x x = 0"
  by (simp add: compareHands_def compare_loop_refl)

lemma compareHands_anti: "compareHands b a = - compareHands a b"
proof (cases "hand_rank a = hand_rank b")
  case True
  have "max (length (tiebreaker b)) (length (tiebreaker a))
      = max (length (tiebreaker a)) (length (tiebreaker b))" by (rule max.commute)
  with True show ?thesis
    unfolding compareHands_def
    using compare_loop_anti [of "tiebreaker b" "tiebreaker a"
            "max (length (tiebreaker a)) (length (tiebreaker b))" 0]
    by simp
next
  case False
  then show ?thesis unfolding compareHands_def by auto
qed

lemma compareHands_pos_iff:
  "0 < compareHands a b \<longleftrightarrow>
     hand_rank b < hand_rank a
     \<or> (hand_rank a = hand_rank b \<and> lex_greater (tiebreaker a) (tiebreaker b))"
  by (simp add: compareHands_def compare_loop_max_pos)

lemma lex_greater_negtrans:
  assumes "lex_greater a c"
  shows "lex_greater a b \<or> lex_greater b c"
proof -
  let ?pa = "entry_or_minus1 a" and ?pb = "entry_or_minus1 b" and ?pc = "entry_or_minus1 c"
  from assms obtain k where k: "?pc k < ?pa k" "\<forall>j<k. ?pa j = ?pc j"
    unfolding lex_greater_entry by blast
  show ?thesis
  proof (cases "\<exists>j\<le>k. ?pb j \<noteq> ?pa j")
    case False
    then have "\<forall>j\<le>k. ?pb j = ?pa j" by blast
    with k have "?pc k < ?pb k" "\<forall>j<k. ?pb j = ?pc j" by auto
    then show ?thesis unfolding lex_greater_entry by blast
  next
    case True
    define m where "m = (LEAST j. j \<le> k \<and> ?pb j \<noteq> ?pa j)"
    from True have m: "m \<le> k \<and> ?pb m \<noteq> ?pa m"
      unfolding m_def by (rule LeastI_ex)
    have before: "?pb j = ?pa j" if "j < m" for j
    proof (rule ccontr)
      assume "?pb j \<noteq> ?pa j"
      with that m have "j \<le> k \<and> ?pb j \<noteq> ?pa j" by simp
      then have "m \<le> j" unfolding m_def by (rule Least_le)
      with that show False by simp
    qed
    show ?thesis
    proof (cases "?pb m < ?pa m")
      case True
      with before show ?thesis unfolding lex_greater_entry by (intro disjI1 exI [of _ m]) auto
    next
      case False
      with m have gt: "?pa m < ?pb m" by simp
      have "?pc m \<le> ?pa m" using k m by (cases "m = k") auto
      with gt have "?pc m < ?pb m" by simp
      moreover have "\<forall>j<m. ?pb j = ?pc j" using before k(2) m by auto
      ultimately show ?thesis unfolding lex_greater_entry by blast
    qed
  qed
qed

lemma compareHands_negtrans:
  assumes "0 < compareHands a c"
  shows "0 < compareHands a b \<or> 0 < compareHands b c"
proof -
  from assms consider "hand_rank c < hand_rank a"
    | "hand_rank a = hand_rank c" "lex_greater (tiebreaker a) (tiebreaker c)"
    unfolding compareHands_pos_iff by blast
  then show ?thesis
  proof cases
    case 1
    then show ?thesis unfolding compareHands_pos_iff by linarith
  next
    case 2
    from lex_greater_negtrans [OF 2(2), of "tiebreaker b"] 2(1) show ?thesis
      unfolding compareHands_pos_iff by (cases "hand_rank b = hand_rank a") auto
  qed
qed

lemma compareHands_asym: "0 < compareHands a b \<Longrightarrow> \<not> 0 < compareHands b a"
  using compareHands_anti [of a b] by simp

lemma compareHands_trans:
  "0 < compareHands a b \<Longrightarrow> 0 < compareHands b c \<Longrightarrow> 0 < compareHands a c"
  using compareHands_negtrans [of a b c] compareHands_asym [of b c] by blast

lemma compareHands_ge_iff: "0 \<le> compareHands a b \<longleftrightarrow> \<not> 0 < compareHands b a"
  using compareHands_anti [of a b] by auto

lemma compareHands_trans_ge:
  "0 \<le> compareHands a b \<Longrightarrow> 0 \<le> compareHands b c \<Longrightarrow> 0 \<le> compareHands a c"
  unfolding compareHands_ge_iff using compareHands_negtrans [of c a b] by blast

lemma compareHands_gt_ge:
  "0 < compareHands a b \<Longrightarrow> 0 \<le> compareHands b c \<Longrightarrow> 0 < compareHands a c"
  unfolding compareHands_ge_iff using compareHands_negtrans [of a b c] by blast

lemma compareHands_zero_iff:
  assumes "hand_rank a = hand_rank b"
  shows "compareHands a b = 0 \<longleftrightarrow>
     (\<forall>k. entry_or_minus1 (tiebreaker a) k = entry_or_minus1 (tiebreaker b) k)"
proof -
  let ?pa = "entry_or_minus1 (tiebreaker a)" and ?pb = "entry_or_minus1 (tiebreaker b)"
  have "compareHands a b = 0 \<longleftrightarrow> \<not> 0 < compareHands a b \<and> \<not> 0 < compareHands b a"
    using compareHands_anti [of a b] by auto
  also have "\<dots> \<longleftrightarrow> \<not> lex_greater (tiebreaker a) (tiebreaker b)
                    \<and> \<not> lex_greater (tiebreaker b) (tiebreaker a)"
    using assms by (simp add: compareHands_pos_iff)
  also have "\<dots> \<longleftrightarrow> (\<forall>k. ?pa k = ?pb k)"
  proof
    assume n: "\<not> lex_greater (tiebreaker a) (tiebreaker b)
                    \<and> \<not> lex_greater (tiebreaker b) (tiebreaker a)"
    show "\<forall>k. ?pa k = ?pb k"
    proof (rule ccontr)
      assume "\<not> (\<forall>k. ?pa k = ?pb k)"
      then have ex: "\<exists>k. ?pa k \<noteq> ?pb k" by blast
      define m where "m = (LEAST k. ?pa k \<noteq> ?pb k)"
      from ex have m: "?pa m \<noteq> ?pb m" unfolding m_def by (rule LeastI_ex)
      have "?pa j = ?pb j" if "j < m" for j
        using that not_less_Least [of j "\<lambda>k. ?pa k \<noteq> ?pb k"] unfolding m_def by auto
      with m have "lex_greater (tiebreaker a) (tiebreaker b)
                    \<or> lex_greater (tiebreaker b) (tiebreaker a)"
        unfolding lex_greater_entry
        by (cases "?pb m < ?pa m") (auto intro!: exI [of _ m])
      with n show False by blast
    qed
  next
    assume "\<forall>k. ?pa k = ?pb k"
    then show "\<not> lex_greater (tiebreaker a) (tiebreaker b)
                    \<and> \<not> lex_greater (tiebreaker b) (tiebreaker a)"
      unfolding lex_greater_entry by auto
  qed
  finally show ?thesis .
qed


lemma lex_greater_lex:
  assumes "length a = length b"
  shows "lex_greater a b \<longleftrightarrow> (b, a) \<in> lex {(x, y). x < y}"
proof
  assume "lex_greater a b"
  then obtain k where k: "padded b k < padded a k" "\<forall>j<k. padded a j = padded b j"
    unfolding lex_greater_def by blast
  have kl: "k < length a"
  proof (rule ccontr)
    assume "\<not> k < length a"
    with assms have "padded a k = - 1" "padded b k = - 1" by (simp_all add: padded_beyond)
    with k(1) show False by simp
  qed
  with assms have kb: "k < length b" by simp
  from k(2) kl kb have "take k a = take k b"
    by (intro nth_take_lemma) (auto simp: padded_within)
  moreover have "a = take k a @ a ! k # drop (Suc k) a" "b = take k b @ b ! k # drop (Suc k) b"
    using kl kb by (simp_all add: id_take_nth_drop)
  moreover from k(1) kl kb have "b ! k < a ! k" by (simp add: padded_within)
  ultimately show "(b, a) \<in> lex {(x, y). x < y}"
    unfolding lex_conv using assms by (metis (mono_tags, lifting) case_prodI mem_Collect_eq)
next
  assume "(b, a) \<in> lex {(x, y). x < y}"
  then obtain us x y bs as where d: "b = us @ x # bs" "a = us @ y # as" "x < y"
    unfolding lex_conv by auto
  let ?k = "length us"
  have "padded b ?k = x" "padded a ?k = y"
    using d by (simp_all add: padded_within)
  moreover have "padded a j = padded b j" if "j < ?k" for j
    using that d by (simp add: padded_within nth_append)
  ultimately show "lex_greater a b"
    unfolding lex_greater_def using d(3) by (intro exI [of _ ?k]) auto
qed

text \<open>
  Claim C4. \<open>compareHands\<close> orders all hand evaluations, those of \<open>evaluate5\<close> among
  them: a hand compares equal to itself; swapping the arguments negates the sign; the
  strict and the weak comparison are transitive; hands of different categories compare
  as their categories do; and hands of one category compare as their tiebreakers do
  lexicographically, a tiebreaker being continued with -1 past its end: the result is
  positive exactly when the first tiebreaker is greater at the first position where the
  two continued sequences differ, and zero exactly when they differ nowhere. The
  continued sequence holds the entries of the list and then -1; for tiebreakers of one
  length the comparison is the lexicographic order of the library.
\<close>

theorem compareHands_total_order:
  "(\<forall>x. compareHands x x = 0)
   \<and> (\<forall>a b. sgn (compareHands a b) = - sgn (compareHands b a))
   \<and> (\<forall>a b c. 0 < compareHands a b \<and> 0 < compareHands b c \<longrightarrow> 0 < compareHands a c)
   \<and> (\<forall>a b c. 0 \<le> compareHands a b \<and> 0 \<le> compareHands b c \<longrightarrow> 0 \<le> compareHands a c)
   \<and> (\<forall>a b. hand_rank a \<noteq> hand_rank b \<longrightarrow>
          sgn (compareHands a b) = sgn (hand_rank a - hand_rank b))
   \<and> (\<forall>a b. hand_rank a = hand_rank b \<longrightarrow>
          (0 < compareHands a b \<longleftrightarrow> lex_greater (tiebreaker a) (tiebreaker b))
          \<and> (compareHands a b = 0 \<longleftrightarrow>
               (\<forall>k. padded (tiebreaker a) k = padded (tiebreaker b) k)))
   \<and> (\<forall>xs k. k < length xs \<longrightarrow> padded xs k = xs ! k)
   \<and> (\<forall>xs k. length xs \<le> k \<longrightarrow> padded xs k = - 1)
   \<and> (\<forall>a b. length a = length b \<longrightarrow>
          (lex_greater a b \<longleftrightarrow> (b, a) \<in> lex {(x, y). x < y}))"
proof -
  have s1: "sgn (compareHands a b) = - sgn (compareHands b a)" for a b
    using compareHands_anti [of b a] by simp
  have s2: "sgn (compareHands a b) = sgn (hand_rank a - hand_rank b)"
    if "hand_rank a \<noteq> hand_rank b" for a b
    using that by (simp add: compareHands_def)
  have s3: "0 < compareHands a b \<longleftrightarrow> lex_greater (tiebreaker a) (tiebreaker b)"
    if "hand_rank a = hand_rank b" for a b
    using that by (simp add: compareHands_pos_iff)
  have s4: "compareHands a b = 0 \<longleftrightarrow>
               (\<forall>k. padded (tiebreaker a) k = padded (tiebreaker b) k)"
    if "hand_rank a = hand_rank b" for a b
    using compareHands_zero_iff [OF that] by (simp add: entry_padded)
  show ?thesis
    apply (intro conjI allI impI)
             apply (rule compareHands_refl)
            apply (rule s1)
           apply (erule conjE, erule (1) compareHands_trans)
          apply (erule conjE, erule (1) compareHands_trans_ge)
         apply (erule s2)
        apply (erule s3)
       apply (erule s4)
      apply (erule padded_within)
     apply (erule padded_beyond)
    apply (erule lex_greater_lex)
    done
qed

theorem compareHands_total_order_witness:
  "0 < compareHands \<lparr>hand_rank = 1, tiebreaker = [12, 9, 5, 3], name = ''One Pair''\<rparr>
                    \<lparr>hand_rank = 1, tiebreaker = [12, 9, 4, 3], name = ''One Pair''\<rparr>
   \<and> 0 < compareHands \<lparr>hand_rank = 1, tiebreaker = [12, 9, 4, 3], name = ''One Pair''\<rparr>
                      \<lparr>hand_rank = 0, tiebreaker = [12, 11, 9, 5, 3], name = ''High Card''\<rparr>
   \<and> 0 < compareHands \<lparr>hand_rank = 1, tiebreaker = [12, 9, 5, 3], name = ''One Pair''\<rparr>
                      \<lparr>hand_rank = 0, tiebreaker = [12, 11, 9, 5, 3], name = ''High Card''\<rparr>
   \<and> 0 \<le> compareHands \<lparr>hand_rank = 1, tiebreaker = [12, 9, 5, 3], name = ''One Pair''\<rparr>
                      \<lparr>hand_rank = 0, tiebreaker = [12, 11, 9, 5, 3], name = ''High Card''\<rparr>
   \<and> sgn (compareHands \<lparr>hand_rank = 1, tiebreaker = [12, 9, 4, 3], name = ''One Pair''\<rparr>
                        \<lparr>hand_rank = 0, tiebreaker = [12, 11, 9, 5, 3], name = ''High Card''\<rparr>) = 1
   \<and> lex_greater [12, 9, 5, 3] [12, 9, 4, 3]
   \<and> ([12, 9, 4, 3], [12, 9, 5, 3]) \<in> lex {(x, y). x < (y::int)}
   \<and> 0 < compareHands \<lparr>hand_rank = 1, tiebreaker = [12, 9, 4, 3], name = ''One Pair''\<rparr>
                      \<lparr>hand_rank = 1, tiebreaker = [12, 9, 4], name = ''One Pair''\<rparr>
   \<and> lex_greater [12, 9, 4, 3] [12, 9, 4]
   \<and> padded [12, 9, 4, 3] 2 = 4
   \<and> padded [12, 9, 4] 3 = - 1"
proof -
  let ?A = "\<lparr>hand_rank = 1, tiebreaker = [12, 9, 5, 3], name = ''One Pair''\<rparr>"
  let ?B = "\<lparr>hand_rank = 1, tiebreaker = [12, 9, 4, 3], name = ''One Pair''\<rparr>"
  let ?C = "\<lparr>hand_rank = 0, tiebreaker = [12, 11, 9, 5, 3], name = ''High Card''\<rparr>"
  let ?D = "\<lparr>hand_rank = 1, tiebreaker = [12, 9, 4], name = ''One Pair''\<rparr>"
  have ab: "0 < compareHands ?A ?B"
    by (simp add: compareHands_def compare_loop.simps entry_or_minus1_def)
  have bc: "0 < compareHands ?B ?C"
    by (simp add: compareHands_def)
  have bd: "0 < compareHands ?B ?D"
    by (simp add: compareHands_def compare_loop.simps entry_or_minus1_def)
  note T = compareHands_total_order
  from T [THEN conjunct2, THEN conjunct2, THEN conjunct1, rule_format, of ?A ?B ?C] ab bc
  have ac: "0 < compareHands ?A ?C" by simp
  from ab bc have "0 \<le> compareHands ?A ?B \<and> 0 \<le> compareHands ?B ?C" by simp
  from T [THEN conjunct2, THEN conjunct2, THEN conjunct2, THEN conjunct1, rule_format, OF this]
  have ge: "0 \<le> compareHands ?A ?C" .
  have "hand_rank ?B \<noteq> hand_rank ?C" by simp
  from T [THEN conjunct2, THEN conjunct2, THEN conjunct2, THEN conjunct2, THEN conjunct1,
          rule_format, OF this]
  have sg: "sgn (compareHands ?B ?C) = 1" by simp
  note T6 = T [THEN conjunct2, THEN conjunct2, THEN conjunct2, THEN conjunct2, THEN conjunct2]
  have "hand_rank ?A = hand_rank ?B" by simp
  from T6 [THEN conjunct1, rule_format, OF this] ab
  have "lex_greater (tiebreaker ?A) (tiebreaker ?B)" by simp
  then have lg: "lex_greater [12, 9, 5, 3] [12, 9, 4, 3]" by simp
  have "hand_rank ?B = hand_rank ?D" by simp
  from T6 [THEN conjunct1, rule_format, OF this] bd
  have "lex_greater (tiebreaker ?B) (tiebreaker ?D)" by simp
  then have lg2: "lex_greater [12, 9, 4, 3] [12, 9, 4]" by simp
  have "(2::nat) < length [12, 9, 4, 3 :: int]" by simp
  from T6 [THEN conjunct2, THEN conjunct1, rule_format, OF this]
  have p1: "padded [12, 9, 4, 3] 2 = 4" by simp
  have "length [12, 9, 4 :: int] \<le> 3" by simp
  from T6 [THEN conjunct2, THEN conjunct2, THEN conjunct1, rule_format, OF this]
  have p2: "padded [12, 9, 4] 3 = - 1" .
  have "length [12, 9, 5, 3 :: int] = length [12, 9, 4, 3 :: int]" by simp
  from T6 [THEN conjunct2, THEN conjunct2, THEN conjunct2, rule_format, OF this] lg
  have lx: "([12, 9, 4, 3], [12, 9, 5, 3]) \<in> lex {(x, y). x < (y::int)}" by simp
  from ab bc ac ge sg lg lx bd lg2 p1 p2 show ?thesis by simp
qed

section \<open>Properties of the selector\<close>

lemma combinations5_mem_I:
  "a < b \<Longrightarrow> b < c \<Longrightarrow> c < d \<Longrightarrow> d < e \<Longrightarrow> e < n \<Longrightarrow> (a, b, c, d, e) \<in> set (combinations5 n)"
  apply (simp add: combinations5_def)
  apply (rule bexI [where x = a])
   apply (rule bexI [where x = b])
    apply (rule bexI [where x = c])
     apply (rule bexI [where x = d])
      apply (rule image_eqI [where x = e])
       apply simp_all
  done

lemma combinations5_mem_D:
  "(a, b, c, d, e) \<in> set (combinations5 n) \<Longrightarrow> a < b \<and> b < c \<and> c < d \<and> d < e \<and> e < n"
  unfolding combinations5_def by auto

lemma pick5_length [simp]: "length (pick5 cards t) = 5"
  by (cases t) (simp add: pick5_def)

lemma sub_mset_pick:
  "M \<subseteq># mset xs \<Longrightarrow>
     \<exists>is. sorted_wrt (<) is \<and> (\<forall>i \<in> set is. i < length xs) \<and> mset (map ((!) xs) is) = M"
proof (induction xs arbitrary: M rule: rev_induct)
  case Nil
  then show ?case by (intro exI [of _ "[]"]) simp
next
  case (snoc x xs)
  from snoc.prems have "M - {#x#} \<subseteq># mset xs"
    by (simp add: subset_eq_diff_conv)
  from snoc.IH [OF this] obtain "is" where
    "is": "sorted_wrt (<) is" "\<forall>i \<in> set is. i < length xs" "mset (map ((!) xs) is) = M - {#x#}"
    by blast
  have same: "map ((!) (xs @ [x])) is = map ((!) xs) is"
    using "is"(2) by (simp add: nth_append)
  have same_m: "mset (map ((!) (xs @ [x])) is) = M - {#x#}"
    unfolding same by (rule "is"(3))
  show ?case
  proof (cases "x \<in># M")
    case True
    let ?js = "is @ [length xs]"
    have "sorted_wrt (<) ?js" using "is"(1,2) by (simp add: sorted_wrt_append)
    moreover have "\<forall>i \<in> set ?js. i < length (xs @ [x])" using "is"(2) by auto
    moreover have "mset (map ((!) (xs @ [x])) ?js) = M"
    proof -
      have "mset (map ((!) (xs @ [x])) ?js) = add_mset x (M - {#x#})"
        unfolding map_append mset_append same_m by simp
      with True show ?thesis by simp
    qed
    ultimately show ?thesis by blast
  next
    case False
    then have "M - {#x#} = M" by simp
    with "is"(1,2) same_m have "sorted_wrt (<) is" "\<forall>i \<in> set is. i < length (xs @ [x])"
      "mset (map ((!) (xs @ [x])) is) = M" by auto
    then show ?thesis by blast
  qed
qed

lemma sub_mset_combination:
  assumes "length S = 5" "mset S \<subseteq># mset cards"
  shows "\<exists>t \<in> set (combinations5 (length cards)). mset (pick5 cards t) = mset S"
proof -
  from sub_mset_pick [OF assms(2)] obtain "is" where
    "is": "sorted_wrt (<) is" "\<forall>i \<in> set is. i < length cards" "mset (map ((!) cards) is) = mset S"
    by blast
  from "is"(3) have "length is = length S"
    by (metis length_map size_mset)
  with assms(1) obtain a b c d e where abc: "is = [a, b, c, d, e]"
    by (auto simp: length_Suc_conv numeral_eq_Suc)
  with "is"(1,2) have "(a, b, c, d, e) \<in> set (combinations5 (length cards))"
    by (auto intro: combinations5_mem_I)
  moreover from "is"(3) abc have "mset (pick5 cards (a, b, c, d, e)) = mset S"
    by (simp add: pick5_def)
  ultimately show ?thesis by blast
qed

lemma foldl_keep_best:
  "hs \<noteq> [] \<Longrightarrow>
     \<exists>k<length hs. foldl keep_best None hs = Some (hs ! k)
        \<and> (\<forall>j<k. 0 < compareHands (hs ! k) (hs ! j))
        \<and> (\<forall>j<length hs. 0 \<le> compareHands (hs ! k) (hs ! j))"
proof (induction hs rule: rev_induct)
  case Nil
  then show ?case by simp
next
  case (snoc h hs)
  show ?case
  proof (cases "hs = []")
    case True
    then show ?thesis by (simp add: keep_best_def compareHands_refl)
  next
    case False
    from snoc.IH [OF this] obtain k where k: "k < length hs"
      "foldl keep_best None hs = Some (hs ! k)"
      "\<forall>j<k. 0 < compareHands (hs ! k) (hs ! j)"
      "\<forall>j<length hs. 0 \<le> compareHands (hs ! k) (hs ! j)" by blast
    show ?thesis
    proof (cases "0 < compareHands h (hs ! k)")
      case True
      let ?n = "length hs"
      have all: "0 < compareHands h (hs ! j)" if "j < ?n" for j
        using compareHands_gt_ge [OF True] k(4) that by blast
      have "foldl keep_best None (hs @ [h]) = Some ((hs @ [h]) ! ?n)"
        using k(2) True by (simp add: keep_best_def)
      moreover have "\<forall>j<?n. 0 < compareHands ((hs @ [h]) ! ?n) ((hs @ [h]) ! j)"
        using all by (simp add: nth_append)
      moreover have "\<forall>j<length (hs @ [h]). 0 \<le> compareHands ((hs @ [h]) ! ?n) ((hs @ [h]) ! j)"
        using all by (auto simp: nth_append compareHands_refl less_Suc_eq intro: less_imp_le)
      ultimately show ?thesis
        by (intro exI [of _ ?n]) simp
    next
      case False
      then have ge: "0 \<le> compareHands (hs ! k) h"
        by (simp add: compareHands_ge_iff)
      have "foldl keep_best None (hs @ [h]) = Some ((hs @ [h]) ! k)"
        using k(1,2) False by (simp add: keep_best_def nth_append)
      moreover have "\<forall>j<k. 0 < compareHands ((hs @ [h]) ! k) ((hs @ [h]) ! j)"
        using k(1,3) by (simp add: nth_append)
      moreover have "\<forall>j<length (hs @ [h]). 0 \<le> compareHands ((hs @ [h]) ! k) ((hs @ [h]) ! j)"
        using k(1,4) ge by (auto simp: nth_append less_Suc_eq)
      ultimately show ?thesis
        using k(1) by (intro exI [of _ k]) simp
    qed
  qed
qed

lemma best_loop_foldl:
  "(\<And>five. five \<in> set fives \<Longrightarrow> length five = 5) \<Longrightarrow>
     best_loop fives best = Inr (foldl keep_best best (map (projr \<circ> evaluate5) fives))"
proof (induction fives arbitrary: best)
  case Nil
  then show ?case by simp
next
  case (Cons five fives)
  from Cons.prems have "length five = 5" by simp
  from evaluate5_returns [OF this] obtain h where h: "evaluate5 five = Inr h" by blast
  from Cons.prems have "\<And>f. f \<in> set fives \<Longrightarrow> length f = 5" by simp
  from Cons.IH [OF this] h show ?case by simp
qed


lemma numeric_cards_Cons:
  "numeric_cards (Card c # ps) = c # numeric_cards ps"
  by (simp add: numeric_cards_def map_filter_simps)

lemma all_valid_cards:
  assumes "\<forall>t \<in> set tokens. \<exists>c. parseCard t = Card c"
  shows "parsed_cards tokens = map parseCard tokens"
    and "NonCard \<notin> set (parsed_cards tokens)"
    and "length (numeric_cards (parsed_cards tokens)) = length tokens"
proof -
  show p: "parsed_cards tokens = map parseCard tokens"
    unfolding parsed_cards_def using assms by (induction tokens) auto
  show "NonCard \<notin> set (parsed_cards tokens)"
    unfolding p using assms by auto
  show "length (numeric_cards (parsed_cards tokens)) = length tokens"
    unfolding p using assms
  proof (induction tokens)
    case Nil
    then show ?case by (simp add: numeric_cards_def map_filter_simps)
  next
    case (Cons t ts)
    then obtain c where "parseCard t = Card c" by auto
    with Cons show ?case by (simp add: numeric_cards_Cons)
  qed
qed

text \<open>
  Claim C1. When every token parses to a card and there are at least five of them (so
  in particular for five to seven tokens), \<open>evaluate7\<close> returns an evaluation \<open>E\<close> with
  \<open>compareHands E h \<ge> 0\<close> for the evaluation \<open>h\<close> of every five cards taken from the
  parsed cards (any sub-multiset of size five, in any order). Moreover \<open>E\<close> is the
  evaluation of the combination at some position \<open>k\<close> of the loops' enumeration that
  is strictly greater than every combination enumerated before it and at least as
  great as every combination of the enumeration: the running best starts with the
  first combination and is replaced only by a strictly greater one.
\<close>

theorem evaluate7_best:
  assumes "5 \<le> length tokens" "\<forall>t \<in> set tokens. \<exists>c. parseCard t = Card c"
  shows "\<exists>E. evaluate7 tokens = Inr (Some E)
     \<and> (\<forall>S. length S = 5 \<and> mset S \<subseteq># mset (numeric_cards (parsed_cards tokens)) \<longrightarrow>
           (\<exists>h. evaluate5 S = Inr h \<and> 0 \<le> compareHands E h))
     \<and> (\<exists>k<length (combinations5 (length tokens)).
           evaluate5 (pick5 (numeric_cards (parsed_cards tokens)) (combinations5 (length tokens) ! k)) = Inr E
           \<and> (\<forall>j<k. \<exists>h. evaluate5 (pick5 (numeric_cards (parsed_cards tokens))
                                  (combinations5 (length tokens) ! j)) = Inr h
                         \<and> 0 < compareHands E h)
           \<and> (\<forall>j<length (combinations5 (length tokens)).
                 \<exists>h. evaluate5 (pick5 (numeric_cards (parsed_cards tokens))
                                  (combinations5 (length tokens) ! j)) = Inr h
                     \<and> 0 \<le> compareHands E h))"
proof -
  define cards where "cards = numeric_cards (parsed_cards tokens)"
  define combos where "combos = combinations5 (length tokens)"
  define hs where "hs = map (projr \<circ> evaluate5) (map (pick5 cards) combos)"
  note v = all_valid_cards [OF assms(2)]
  have n: "length cards = length tokens" unfolding cards_def by (rule v(3))
  have pn: "length (parsed_cards tokens) = length tokens" unfolding v(1) by simp
  have "(0, 1, 2, 3, 4) \<in> set combos"
    unfolding combos_def using assms(1) by (intro combinations5_mem_I) auto
  then have ne: "hs \<noteq> []" unfolding hs_def by auto
  have lh: "length hs = length combos" unfolding hs_def by simp
  have ev: "evaluate5 (pick5 cards (combos ! j)) = Inr (hs ! j)" if "j < length combos" for j
  proof -
    from evaluate5_returns [OF pick5_length, of cards "combos ! j"]
    obtain h where "evaluate5 (pick5 cards (combos ! j)) = Inr h" by blast
    with that show ?thesis unfolding hs_def by simp
  qed
  have "evaluate7 tokens = best_loop (map (pick5 cards) combos) None"
    unfolding evaluate7_def Let_def pn cards_def combos_def using assms(1) v(2) by simp
  also have "\<dots> = Inr (foldl keep_best None hs)"
    unfolding hs_def by (rule best_loop_foldl) auto
  finally have e7: "evaluate7 tokens = Inr (foldl keep_best None hs)" .
  from foldl_keep_best [OF ne] obtain k where k: "k < length hs"
    "foldl keep_best None hs = Some (hs ! k)"
    "\<forall>j<k. 0 < compareHands (hs ! k) (hs ! j)"
    "\<forall>j<length hs. 0 \<le> compareHands (hs ! k) (hs ! j)" by blast
  have sub: "\<exists>h. evaluate5 S = Inr h \<and> 0 \<le> compareHands (hs ! k) h"
    if "length S = 5 \<and> mset S \<subseteq># mset cards" for S
  proof -
    from that sub_mset_combination [of S cards] obtain t where
      t: "t \<in> set combos" "mset (pick5 cards t) = mset S"
      unfolding combos_def n by blast
    from t(1) obtain j where j: "j < length combos" "combos ! j = t"
      by (auto simp: in_set_conv_nth)
    from evaluate5_perm [OF t(2)] ev [OF j(1)] j(2) have "evaluate5 S = Inr (hs ! j)" by simp
    with k(4) j(1) lh show ?thesis by simp
  qed
  have first: "\<exists>h. evaluate5 (pick5 cards (combos ! j)) = Inr h \<and> 0 < compareHands (hs ! k) h"
    if "j < k" for j
    using that k(1,3) lh ev [of j] by simp
  have all: "\<exists>h. evaluate5 (pick5 cards (combos ! j)) = Inr h \<and> 0 \<le> compareHands (hs ! k) h"
    if "j < length combos" for j
    using that k(4) lh ev [of j] by simp
  from e7 k(1,2) lh ev [of k] sub first all show ?thesis
    unfolding cards_def [symmetric] combos_def [symmetric]
    by (intro exI [of _ "hs ! k"]) auto
qed

theorem evaluate7_best_witness:
  "5 \<le> length [JStr ''As'', JStr ''Kh'', JStr ''Qd'', JStr ''Jc'', JStr ''Ts'', JStr ''3h'', JStr ''7d'']
   \<and> map parseCard [JStr ''As'', JStr ''Kh'', JStr ''Qd'', JStr ''Jc'', JStr ''Ts'', JStr ''3h'', JStr ''7d'']
      = map Card [\<lparr>rank = 12, suit = 0\<rparr>, \<lparr>rank = 11, suit = 1\<rparr>, \<lparr>rank = 10, suit = 2\<rparr>,
                  \<lparr>rank = 9, suit = 3\<rparr>, \<lparr>rank = 8, suit = 0\<rparr>, \<lparr>rank = 1, suit = 1\<rparr>,
                  \<lparr>rank = 5, suit = 2\<rparr>]
   \<and> evaluate7 [JStr ''As'', JStr ''Kh'', JStr ''Qd'', JStr ''Jc'', JStr ''Ts'', JStr ''3h'', JStr ''7d'']
      = Inr (Some \<lparr>hand_rank = 4, tiebreaker = [12], name = ''Straight''\<rparr>)
   \<and> (\<exists>h. evaluate5 [\<lparr>rank = 12, suit = 0\<rparr>, \<lparr>rank = 11, suit = 1\<rparr>, \<lparr>rank = 10, suit = 2\<rparr>,
                       \<lparr>rank = 1, suit = 1\<rparr>, \<lparr>rank = 5, suit = 2\<rparr>] = Inr h
          \<and> 0 \<le> compareHands \<lparr>hand_rank = 4, tiebreaker = [12], name = ''Straight''\<rparr> h)"
proof -
  let ?T = "[JStr ''As'', JStr ''Kh'', JStr ''Qd'', JStr ''Jc'', JStr ''Ts'', JStr ''3h'', JStr ''7d'']"
  let ?CS = "[\<lparr>rank = 12, suit = 0\<rparr>, \<lparr>rank = 11, suit = 1\<rparr>, \<lparr>rank = 10, suit = 2\<rparr>,
                  \<lparr>rank = 9, suit = 3\<rparr>, \<lparr>rank = 8, suit = 0\<rparr>, \<lparr>rank = 1, suit = 1\<rparr>,
                  \<lparr>rank = 5, suit = 2\<rparr>]"
  let ?S = "[\<lparr>rank = 12, suit = 0\<rparr>, \<lparr>rank = 11, suit = 1\<rparr>, \<lparr>rank = 10, suit = 2\<rparr>,
                       \<lparr>rank = 1, suit = 1\<rparr>, \<lparr>rank = 5, suit = 2\<rparr>]"
  have l: "5 \<le> length ?T" by simp
  have p: "map parseCard ?T = map Card ?CS" by (simp add: codec_defs)
  have v: "\<forall>t \<in> set ?T. \<exists>c. parseCard t = Card c" by (simp add: codec_defs)
  have c: "numeric_cards (parsed_cards ?T) = ?CS"
    by (simp add: parsed_cards_def numeric_cards_def map_filter_simps codec_defs)
  have e: "evaluate7 ?T = Inr (Some \<lparr>hand_rank = 4, tiebreaker = [12], name = ''Straight''\<rparr>)"
    by code_simp
  have m: "length ?S = 5 \<and> mset ?S \<subseteq># mset ?CS" by simp
  from evaluate7_best [OF l v] obtain E where
    E: "evaluate7 ?T = Inr (Some E)"
    "\<forall>S. length S = 5 \<and> mset S \<subseteq># mset (numeric_cards (parsed_cards ?T)) \<longrightarrow>
           (\<exists>h. evaluate5 S = Inr h \<and> 0 \<le> compareHands E h)"
    by blast
  from E(1) e have "E = \<lparr>hand_rank = 4, tiebreaker = [12], name = ''Straight''\<rparr>" by simp
  with E(2) m c have "\<exists>h. evaluate5 ?S = Inr h
          \<and> 0 \<le> compareHands \<lparr>hand_rank = 4, tiebreaker = [12], name = ''Straight''\<rparr> h"
    by metis
  with l p e show ?thesis by blast
qed

section \<open>Properties of the estimators\<close>

















section \<open>The Node module and the browser script\<close>

lemma tables_inject: "RANKS_inject = RANKS" "SUITS_inject = SUITS"
  "RANK_IDX_inject = RANK_IDX" "SUIT_IDX_inject = SUIT_IDX"
  by (simp_all add: RANKS_inject_def RANKS_def SUITS_inject_def SUITS_def
        RANK_IDX_inject_def RANK_IDX_def SUIT_IDX_inject_def SUIT_IDX_def)

lemma HAND_RANK_inject_eq: "HAND_RANK_inject = HAND_RANK"
  by (simp add: HAND_RANK_inject_def HAND_RANK_def category_defs)

lemma hand_rank_inject_eq:
  "hand_rank_inject ''HIGH_CARD'' = HIGH_CARD" "hand_rank_inject ''ONE_PAIR'' = ONE_PAIR"
  "hand_rank_inject ''TWO_PAIR'' = TWO_PAIR" "hand_rank_inject ''THREE_OF_A_KIND'' = THREE_OF_A_KIND"
  "hand_rank_inject ''STRAIGHT'' = STRAIGHT" "hand_rank_inject ''FLUSH'' = FLUSH"
  "hand_rank_inject ''FULL_HOUSE'' = FULL_HOUSE" "hand_rank_inject ''FOUR_OF_A_KIND'' = FOUR_OF_A_KIND"
  "hand_rank_inject ''STRAIGHT_FLUSH'' = STRAIGHT_FLUSH"
  by (simp_all add: hand_rank_inject_def HAND_RANK_inject_def category_defs)

lemma parseCard_inject_eq: "parseCard_inject v = parseCard v"
  by (cases v) (simp_all add: tables_inject)

lemma cardToString_inject_eq: "cardToString_inject c = cardToString c"
  by (simp add: cardToString_inject_def cardToString_def tables_inject)

lemma freq_entries_from_keys:
  assumes "distinct (map fst f)"
  shows "map (\<lambda>r. (r, freq_get f r)) (map fst f) = f"
proof -
  have "(\<lambda>r. (r, freq_get f r)) (fst g) = g" if "g \<in> set f" for g
  proof -
    from that assms have "map_of f (fst g) = Some (snd g)" by simp
    then show ?thesis by (simp add: freq_get_def)
  qed
  then have "map ((\<lambda>r. (r, freq_get f r)) \<circ> fst) f = map (\<lambda>g. g) f"
    by (intro map_cong) auto
  then show ?thesis by simp
qed

lemma rank_groups_inject_eq: "rank_groups_inject rs = rank_groups rs"
proof -
  have k: "(\<lambda>g::int \<times> nat. (- int (snd g), - fst g)) = (\<lambda>(r, c). (- int c, - r))"
    by (simp add: fun_eq_iff)
  from rank_freq_ok [of rs] have "distinct (map fst (rank_freq rs))"
    by (simp add: freq_ok_def)
  from freq_entries_from_keys [OF this] show ?thesis
    by (simp add: rank_groups_inject_def rank_groups_def Let_def k)
qed

lemma evaluate5_inject_eq: "evaluate5_inject cards = evaluate5 cards"
  unfolding evaluate5_inject_def evaluate5_def rank_groups_inject_eq hand_rank_inject_eq ..

lemma compareHands_inject_eq: "compareHands_inject a b = compareHands a b"
  by (simp add: compareHands_inject_def compareHands_def)

lemma keep_best_inject_eq: "keep_best_inject best hand = keep_best best hand"
  by (cases best) (simp_all add: keep_best_inject_def keep_best_def compareHands_inject_eq)

lemma best_loop_inject_eq: "best_loop_inject fives best = best_loop fives best"
  by (induction fives arbitrary: best)
     (simp_all add: evaluate5_inject_eq keep_best_inject_eq split: sum.splits)

lemma parsed_cards_inject_eq: "parsed_cards_inject ts = parsed_cards ts"
  by (simp add: parsed_cards_inject_def parsed_cards_def parseCard_inject_eq [abs_def])

text \<open>
  The two \<open>evaluate7\<close> functions return the same hand, or \<open>null\<close>, on every token list
  on which they are followed. On the others (five or more parsed entries, a \<open>NonCard\<close>
  among them) the equation below says only that neither is followed.
\<close>

lemma evaluate7_inject_eq: "evaluate7_inject ts = evaluate7 ts"
  by (simp add: evaluate7_inject_def evaluate7_def Let_def parsed_cards_inject_eq
        best_loop_inject_eq)

lemma preFlopStrength_inject_eq: "preFlopStrength_inject hole = preFlopStrength hole"
proof (cases "parsed_cards hole")
  case Nil
  then show ?thesis
    by (simp add: preFlopStrength_inject_def preFlopStrength_def parsed_cards_inject_eq)
next
  case (Cons c1 rest)
  then show ?thesis
    by (cases rest)
       (simp_all add: preFlopStrength_inject_def preFlopStrength_def parsed_cards_inject_eq)
qed

lemma discount_null: "discount e 0 = discount e 1"
  by (simp add: discount_def)

text \<open>
  Where \<open>holeCards\<close> and \<open>boardCards\<close> are arrays or missing, the two \<open>winProbability\<close>
  functions agree, whatever \<open>numOpponents\<close> is (\<open>null - 1\<close> and \<open>1 - 1\<close> both give the
  exponent 0); with a board on which \<open>evaluate7\<close> is not followed, the equation says
  only that neither is.
\<close>

lemma winProbability_inject_eq:
  assumes "holeCards opts = NoCards \<or> (\<exists>hole. holeCards opts = Cards hole)"
    and "boardCards opts = NoCards \<or> (\<exists>board. boardCards opts = Cards board)"
  shows "winProbability_inject opts = winProbability opts"
  using assms
  by (cases "holeCards opts"; cases "boardCards opts"; cases "numOpponents opts")
     (simp_all add: winProbability_inject_def winProbability_def Let_def
        board_equity_inject_def board_equity_def equity_result_def
        preFlopStrength_inject_eq evaluate7_inject_eq discount_null
      split: sum.splits option.splits)

text \<open>
  Claim C10, at the inputs where the Node module leaves it. With \<open>holeCards: null\<close> the
  destructuring default of the Node module does not apply (it replaces \<open>undefined\<close>
  only), and \<open>holeCards.length\<close> throws a TypeError; the browser script replaces
  \<open>null\<close> by \<open>[]\<close> and returns 0.5. The same happens with \<open>boardCards: null\<close> and two
  hole cards (the browser script returns \<open>preFlopStrength\<close> of As Kh, 0.35), and with
  \<open>holeCards: 0\<close> the Node module goes on to the discount (0.3872 for three
  opponents) where the browser script returns 0.5.
\<close>

theorem winProbability_null_divergence:
  "winProbability \<lparr>holeCards = NullCards, boardCards = Cards [], numOpponents = Given 1\<rparr>
     = Inl TypeError
   \<and> winProbability_inject \<lparr>holeCards = NullCards, boardCards = Cards [], numOpponents = Given 1\<rparr>
     = Inr 0.5
   \<and> winProbability \<lparr>holeCards = Cards [JStr ''As'', JStr ''Kh''], boardCards = NullCards,
                      numOpponents = Given 1\<rparr> = Inl TypeError
   \<and> winProbability_inject \<lparr>holeCards = Cards [JStr ''As'', JStr ''Kh''], boardCards = NullCards,
                      numOpponents = Given 1\<rparr> = Inr 0.35
   \<and> winProbability \<lparr>holeCards = FalsyCards, boardCards = Cards [], numOpponents = Given 3\<rparr>
     = Inr 0.3872
   \<and> winProbability_inject \<lparr>holeCards = FalsyCards, boardCards = Cards [], numOpponents = Given 3\<rparr>
     = Inr 0.5"
  by (simp add: winProbability_def winProbability_inject_def equity_result_def discount_def
        preFlopStrength_inject_eq preFlopStrength_two [OF parse_examples(1) parse_examples(13)]
        hole_score_def power2_eq_square)

end
